theory Spec2Isabelle
  imports Complex_Main
begin

section \<open>The rules engine as the searchers see it\<close>

text \<open>
  The searchers of applechess are written against the package
  \<^verbatim>\<open>github.com/brighamskarda/chess\<close>, which is not part of the repository.
  Its types are modelled by their fields as the repository reads them, and its
  functions are the fields of an \<open>Engine\<close> record that every searcher takes as
  its first argument. Queries (\<^verbatim>\<open>GenerateLegalMoves\<close>, \<^verbatim>\<open>IsCheckMate\<close>, ...)
  read the position they are given; only \<^verbatim>\<open>Position.Move\<close> changes one, and
  the model returns the changed position.

  The scores of the alpha-beta and minimax searches are Go \<^verbatim>\<open>float64\<close> values.
  They are modelled as real numbers, without the rounding of the constants
  \<^verbatim>\<open>2.9\<close> and \<^verbatim>\<open>0.2\<close>: the searches only compare scores. The material sum
  of the MCTS rollout is compared with a fixed threshold, which rounding can
  cross, so that sum is added in \<^verbatim>\<open>float64\<close> arithmetic (see the section on
  rollouts).
\<close>

datatype Color = NoColor | White | Black

datatype PieceType = NoPieceType | Pawn | Rook | Knight | Bishop | Queen | King

datatype Piece = Piece (Color: Color) (Type: PieceType)

datatype Square = Square (File: nat) (Rank: nat)

definition NoSquare :: Square where
  "NoSquare = Square 0 0"

record Move =
  FromSquare :: Square
  ToSquare :: Square
  Promotion :: PieceType

text \<open>The Go zero value \<^verbatim>\<open>chess.Move{}\<close>.\<close>

definition noMove :: Move where
  "noMove = \<lparr>FromSquare = NoSquare, ToSquare = NoSquare, Promotion = NoPieceType\<rparr>"

text \<open>
  A position has the side to move and the board; \<open>Rest\<close> stands for the fields the
  repository never reads (castling rights, en-passant square, move counters).
\<close>

record 'x Position =
  Turn :: Color
  Board :: "Piece list"
  Rest :: 'x

record 'x Engine =
  GenerateLegalMoves :: "'x Position \<Rightarrow> Move list"
  GeneratePseudoLegalMoves :: "'x Position \<Rightarrow> Move list"
  IsCheckMate :: "'x Position \<Rightarrow> bool"
  IsStaleMate :: "'x Position \<Rightarrow> bool"
  PositionMove :: "'x Position \<Rightarrow> Move \<Rightarrow> 'x Position"
  PieceAt :: "'x Position \<Rightarrow> Square \<Rightarrow> Piece"
  AllSquares :: "Square list"

text \<open>\<^verbatim>\<open>math.MaxFloat64\<close>, the largest finite \<^verbatim>\<open>float64\<close>.\<close>

definition MaxFloat64 :: real where
  "MaxFloat64 = (2 ^ 53 - 1) * 2 ^ 971"

section \<open>The threat-count evaluator (alphabeta.go)\<close>

definition getPieceValue :: "Piece \<Rightarrow> real" where
  "getPieceValue p =
     (let val = (case Type p of
                   Pawn \<Rightarrow> 1
                 | Rook \<Rightarrow> 5
                 | Knight \<Rightarrow> 29 / 10
                 | Bishop \<Rightarrow> 3
                 | Queen \<Rightarrow> 8
                 | King \<Rightarrow> 10000
                 | NoPieceType \<Rightarrow> 0)
      in if Color p = White then val else - val)"

definition sumMaterial :: "'x Position \<Rightarrow> real" where
  "sumMaterial p = foldl (\<lambda>totalValue piece. totalValue + getPieceValue piece) 0 (Board p)"

fun findKingLoop :: "'x Engine \<Rightarrow> 'x Position \<Rightarrow> Color \<Rightarrow> Square list \<Rightarrow> Square" where
  "findKingLoop E p c [] = NoSquare"
| "findKingLoop E p c (square # rest) =
     (let piece = PieceAt E p square
      in if Type piece = King \<and> Color piece = c then square
         else findKingLoop E p c rest)"

definition findKing :: "'x Engine \<Rightarrow> 'x Position \<Rightarrow> Color \<Rightarrow> Square" where
  "findKing E p c = findKingLoop E p c (AllSquares E)"

text \<open>
  \<^verbatim>\<open>numPseudoLegalChecks\<close> writes to \<^verbatim>\<open>p.Turn\<close> through its pointer argument,
  so the model returns the position it leaves behind next to the count.
\<close>

definition numPseudoLegalChecks :: "'x Engine \<Rightarrow> 'x Position \<Rightarrow> int \<times> 'x Position" where
  "numPseudoLegalChecks E p0 =
     (let origTurn = Turn p0;
          total = 0;
          p1 = p0\<lparr>Turn := White\<rparr>;
          blackKing = findKing E p1 Black;
          pLegalMoves = GeneratePseudoLegalMoves E p1;
          total = foldl (\<lambda>t move. if ToSquare move = blackKing then t + 1 else t)
                    total pLegalMoves;
          p2 = p1\<lparr>Turn := Black\<rparr>;
          whiteKing = findKing E p2 White;
          pLegalMoves = GeneratePseudoLegalMoves E p2;
          total = foldl (\<lambda>t move. if ToSquare move = whiteKing then t - 1 else t)
                    total pLegalMoves;
          p3 = p2\<lparr>Turn := origTurn\<rparr>
      in (total, p3))"

definition evaluate :: "'x Engine \<Rightarrow> 'x Position \<Rightarrow> real \<times> 'x Position" where
  "evaluate E p =
     (let total = sumMaterial p;
          (checks, p') = numPseudoLegalChecks E p
      in (total + real_of_int checks * (2 / 10), p'))"

section \<open>Monte Carlo tree search: rollouts\<close>

text \<open>
  \<^verbatim>\<open>rand.IntN(k)\<close> draws from a global generator. The generator is an explicit
  infinite sequence of raw draws; \<open>IntN\<close> reduces the next one into \<open>[0, k)\<close> and
  returns the rest of the sequence.
\<close>

type_synonym rng = "nat \<Rightarrow> nat"

definition IntN :: "rng \<Rightarrow> nat \<Rightarrow> nat \<times> rng" where
  "IntN g k = (g 0 mod k, \<lambda>i. g (Suc i))"

text \<open>
  \<^verbatim>\<open>getPositionValue\<close> adds piece values in \<^verbatim>\<open>float64\<close>, and the knight's
  \<^verbatim>\<open>2.9\<close> is not a \<^verbatim>\<open>float64\<close>: the constant is rounded to the nearest one,
  \<open>6530219459687219 / 2^51\<close>, and the sums that contain it are rounded again. The
  five other piece values are integers, so every operand of the sum, and with it
  every running total, is an integer multiple of \<open>2^-51\<close>, the spacing of the
  \<^verbatim>\<open>float64\<close> values between 2 and 4. A \<^verbatim>\<open>float64\<close> \<open>v\<close> of this kind is
  written as the integer \<open>v * 2^51\<close>.

  IEEE 754 addition and subtraction return the exact result rounded to 53
  significant bits, to the nearest such value and to the one with an even last bit
  when two are equally near. On multiples of \<open>2^-51\<close> that is \<open>round53\<close>:
  \<open>dropBits m\<close> counts the low bits of \<open>m\<close> beyond the 53 that fit, and
  \<open>roundBits\<close> rounds them away. A total of magnitude below 4 has no such bits
  and is exact. Overflow would need a total of \<open>2^1024\<close>, that is a board of more than
  \<open>10^300\<close> pieces, and is not modelled.
\<close>

type_synonym float64 = int

definition valueOf :: "float64 \<Rightarrow> real" where
  "valueOf a = real_of_int a / 2 ^ 51"

definition fromInt :: "int \<Rightarrow> float64" where
  "fromInt k = k * 2 ^ 51"

function dropBits :: "nat \<Rightarrow> nat" where
  "dropBits m = (if m < 2 ^ 53 then 0 else Suc (dropBits (m div 2)))"
  by pat_completeness auto
termination
  by (relation "measure id") auto

declare dropBits.simps [simp del]

definition roundBits :: "nat \<Rightarrow> nat" where
  "roundBits m =
     (let sh = dropBits m;
          q = m div 2 ^ sh;
          rest = m mod 2 ^ sh;
          half = 2 ^ sh div 2
      in if sh = 0 then m
         else if rest > half \<or> (rest = half \<and> odd q) then (q + 1) * 2 ^ sh
         else q * 2 ^ sh)"

definition round53 :: "int \<Rightarrow> float64" where
  "round53 n = sgn n * int (roundBits (nat \<bar>n\<bar>))"

definition addFloat64 :: "float64 \<Rightarrow> float64 \<Rightarrow> float64" where
  "addFloat64 a b = round53 (a + b)"

definition subFloat64 :: "float64 \<Rightarrow> float64 \<Rightarrow> float64" where
  "subFloat64 a b = round53 (a - b)"

text \<open>The constant \<^verbatim>\<open>knight = 2.9\<close> as the \<^verbatim>\<open>float64\<close> it is converted to.\<close>

definition knight :: float64 where
  "knight = 6530219459687219"

definition getPositionValue :: "'x Position \<Rightarrow> float64" where
  "getPositionValue p =
     foldl (\<lambda>totalValue piece.
              (let val = (case Type piece of
                            Pawn \<Rightarrow> fromInt 1
                          | Rook \<Rightarrow> fromInt 5
                          | Knight \<Rightarrow> knight
                          | Bishop \<Rightarrow> fromInt 3
                          | Queen \<Rightarrow> fromInt 8
                          | King \<Rightarrow> fromInt 10000
                          | NoPieceType \<Rightarrow> 0)
               in if Color piece = White then addFloat64 totalValue val
                  else if Color piece = Black then subFloat64 totalValue val
                  else totalValue))
       0 (Board p)"

definition limitForWin :: float64 where
  "limitForWin = fromInt 8"

definition determineReward :: "'x Position \<Rightarrow> Color \<Rightarrow> real" where
  "determineReward p agentColor =
     (let positionValue = getPositionValue p
      in case agentColor of
           White \<Rightarrow> if positionValue > limitForWin then 1
                    else if positionValue < - limitForWin then 0
                    else 1 / 2
         | Black \<Rightarrow> if positionValue > limitForWin then 0
                    else if positionValue < - limitForWin then 1
                    else 1 / 2
         | NoColor \<Rightarrow> 1 / 2)"

text \<open>
  The two MCTS files differ in the rollout only: the parallel-root file plays
  20 plies and then calls \<open>determineReward\<close>, the single-tree file plays 50 plies
  and then returns 0.5.
\<close>

datatype variant = ParallelRoot | SingleTree

definition randomRolloutLength :: "variant \<Rightarrow> nat" where
  "randomRolloutLength v = (case v of ParallelRoot \<Rightarrow> 20 | SingleTree \<Rightarrow> 50)"

definition capReward :: "variant \<Rightarrow> 'x Position \<Rightarrow> Color \<Rightarrow> real" where
  "capReward v p agentColor =
     (case v of ParallelRoot \<Rightarrow> determineReward p agentColor | SingleTree \<Rightarrow> 1 / 2)"

text \<open>
  The loop \<^verbatim>\<open>for i := 0; i < randomRolloutLength; i++\<close>, counted by the plies
  that remain; the body never reads \<open>i\<close>.
\<close>

fun rolloutLoop ::
  "variant \<Rightarrow> 'x Engine \<Rightarrow> nat \<Rightarrow> 'x Position \<Rightarrow> Color \<Rightarrow> rng \<Rightarrow> real \<times> rng" where
  "rolloutLoop v E 0 p agentColor g = (capReward v p agentColor, g)"
| "rolloutLoop v E (Suc remaining) p agentColor g =
     (if IsCheckMate E p \<and> Turn p \<noteq> agentColor then (1, g)
      else if IsCheckMate E p \<and> Turn p = agentColor then (0, g)
      else let legalMoves = GenerateLegalMoves E p
           in if length legalMoves = 0 then (1 / 2, g)
              else let (i, g') = IntN g (length legalMoves);
                       move = legalMoves ! i
                   in rolloutLoop v E remaining (PositionMove E p move) agentColor g')"

definition randomRollout ::
  "variant \<Rightarrow> 'x Engine \<Rightarrow> 'x Position \<Rightarrow> Color \<Rightarrow> rng \<Rightarrow> real \<times> rng" where
  "randomRollout v E p agentColor g = rolloutLoop v E (randomRolloutLength v) p agentColor g"

text \<open>
  The position at which a rollout reaches its cap, or \<open>None\<close> when the loop
  returned early (checkmate, or no legal move): the loop of \<open>rolloutLoop\<close> with its
  early returns mapped to \<open>None\<close>.
\<close>

fun rolloutCapPosition ::
  "'x Engine \<Rightarrow> nat \<Rightarrow> 'x Position \<Rightarrow> rng \<Rightarrow> 'x Position option" where
  "rolloutCapPosition E 0 p g = Some p"
| "rolloutCapPosition E (Suc remaining) p g =
     (if IsCheckMate E p then None
      else let legalMoves = GenerateLegalMoves E p
           in if length legalMoves = 0 then None
              else let (i, g') = IntN g (length legalMoves);
                       move = legalMoves ! i
                   in rolloutCapPosition E remaining (PositionMove E p move) g')"

text \<open>
  The material sum that \<^verbatim>\<open>getPositionValue\<close> computes, as a number and seen from
  the agent's side.
\<close>

definition materialFor :: "Color \<Rightarrow> 'x Position \<Rightarrow> real" where
  "materialFor agentColor p =
     (if agentColor = White then valueOf (getPositionValue p)
      else - valueOf (getPositionValue p))"

section \<open>Monte Carlo tree search: the tree\<close>

text \<open>
  A \<^verbatim>\<open>node\<close> owns its children and no node is reachable twice, so the pointer
  structure is a tree of values. The fields \<^verbatim>\<open>w\<close> and \<^verbatim>\<open>n\<close> are called
  \<open>nodeW\<close> and \<open>nodeN\<close>. The counter \<^verbatim>\<open>n\<close> is an \<^verbatim>\<open>int64\<close>; it counts
  iterations and is modelled as an unbounded integer.
\<close>

datatype 'x node =
  Node (nodeW: real) (nodeN: int) (mov: Move) (pos: "'x Position") (children: "'x node list")

text \<open>
  \<^verbatim>\<open>calcUCB\<close>, with the iteration counter \<^verbatim>\<open>mcts.n\<close> passed as \<open>N\<close>. It
  is only called on children with \<open>n \<noteq> 0\<close>. The value is a real number here;
  no property below depends on which child the comparison of UCB values picks.
\<close>

definition calcUCB :: "int \<Rightarrow> 'x node \<Rightarrow> real" where
  "calcUCB N c =
     nodeW c / real_of_int (nodeN c)
       + sqrt 2 * sqrt (ln (real_of_int N) / real_of_int (nodeN c))"

text \<open>
  \<^verbatim>\<open>selectNode\<close> returns a pointer to one of the children; the model returns
  its index. The first loop looks for a child with no visits, the second maximises
  the UCB value. \<^verbatim>\<open>n.children[0]\<close> panics on an empty list: \<open>None\<close>.
\<close>

fun firstUnvisited :: "'x node list \<Rightarrow> nat \<Rightarrow> nat option" where
  "firstUnvisited [] i = None"
| "firstUnvisited (child # rest) i =
     (if nodeN child = 0 then Some i else firstUnvisited rest (Suc i))"

fun ucbLoop :: "int \<Rightarrow> 'x node list \<Rightarrow> nat \<Rightarrow> real \<Rightarrow> nat \<Rightarrow> nat" where
  "ucbLoop N [] i maxUCB bestChild = bestChild"
| "ucbLoop N (child # rest) i maxUCB bestChild =
     (let ucb = calcUCB N child
      in if ucb > maxUCB then ucbLoop N rest (Suc i) ucb i
         else ucbLoop N rest (Suc i) maxUCB bestChild)"

definition selectNode :: "int \<Rightarrow> 'x node \<Rightarrow> nat option" where
  "selectNode N nd =
     (case firstUnvisited (children nd) 0 of
        Some i \<Rightarrow> Some i
      | None \<Rightarrow>
          if children nd = [] then None
          else Some (ucbLoop N (children nd) 0 (- MaxFloat64) 0))"

section \<open>Monte Carlo tree search: one iteration\<close>

text \<open>
  \<^verbatim>\<open>fillInChildren\<close> appends one fresh child per legal move. \<open>backPropagate\<close> is
  the pair of statements \<^verbatim>\<open>selectedNode.n++; selectedNode.w += result\<close>, and
  \<open>setChild\<close> puts the updated child back where the pointer \<^verbatim>\<open>selectedNode\<close>
  points.
\<close>

definition fillInChildren :: "'x Engine \<Rightarrow> 'x node \<Rightarrow> 'x node" where
  "fillInChildren E nd =
     Node (nodeW nd) (nodeN nd) (mov nd) (pos nd)
       (children nd @
          map (\<lambda>move. Node 0 0 move (PositionMove E (pos nd) move) [])
            (GenerateLegalMoves E (pos nd)))"

definition backPropagate :: "real \<Rightarrow> 'x node \<Rightarrow> 'x node" where
  "backPropagate result c =
     Node (nodeW c + result) (nodeN c + 1) (mov c) (pos c) (children c)"

definition setChild :: "'x node \<Rightarrow> nat \<Rightarrow> 'x node \<Rightarrow> 'x node" where
  "setChild nd i c = Node (nodeW nd) (nodeN nd) (mov nd) (pos nd) ((children nd)[i := c])"

lemma firstUnvisited_None:
  "firstUnvisited cs k = None \<Longrightarrow> c \<in> set cs \<Longrightarrow> nodeN c \<noteq> 0"
  by (induction cs arbitrary: k) (auto split: if_splits)

lemma firstUnvisited_Some:
  "firstUnvisited cs k = Some i \<Longrightarrow>
     k \<le> i \<and> i - k < length cs \<and> nodeN (cs ! (i - k)) = 0 \<and>
     (\<forall>j. j < i - k \<longrightarrow> nodeN (cs ! j) \<noteq> 0)"
proof (induction cs arbitrary: k)
  case Nil
  then show ?case by simp
next
  case (Cons c cs)
  show ?case
  proof (cases "nodeN c = 0")
    case True
    with Cons.prems show ?thesis by simp
  next
    case False
    with Cons.prems have r: "firstUnvisited cs (Suc k) = Some i" by simp
    from Cons.IH [OF r] have ih: "Suc k \<le> i" "i - Suc k < length cs"
      "nodeN (cs ! (i - Suc k)) = 0" "\<forall>j. j < i - Suc k \<longrightarrow> nodeN (cs ! j) \<noteq> 0"
      by auto
    from ih(1) have e: "i - k = Suc (i - Suc k)" by arith
    have "\<forall>j. j < i - k \<longrightarrow> nodeN ((c # cs) ! j) \<noteq> 0"
    proof (intro allI impI)
      fix j assume "j < i - k"
      then show "nodeN ((c # cs) ! j) \<noteq> 0"
        using False ih(4) e by (cases j) auto
    qed
    then show ?thesis using ih e by simp
  qed
qed

lemma ucbLoop_bound:
  "b < k + length cs \<Longrightarrow> ucbLoop N cs k m b < k + length cs"
proof (induction cs arbitrary: k m b)
  case Nil
  then show ?case by simp
next
  case (Cons c cs)
  have k: "k < Suc k + length cs" by simp
  from Cons.prems have b: "b < Suc k + length cs" by simp
  show ?case
    using Cons.IH [OF k, of "calcUCB N c"] Cons.IH [OF b, of m]
    by (simp add: Let_def)
qed

lemma selectNode_bound: "selectNode N nd = Some i \<Longrightarrow> i < length (children nd)"
proof (cases "firstUnvisited (children nd) 0")
  case None
  assume "selectNode N nd = Some i"
  with None have ne: "children nd \<noteq> []" and i: "i = ucbLoop N (children nd) 0 (- MaxFloat64) 0"
    by (auto simp: selectNode_def split: if_splits)
  from ne have "0 < 0 + length (children nd)" by simp
  from ucbLoop_bound [OF this] i show ?thesis by simp
next
  case (Some j)
  assume "selectNode N nd = Some i"
  with Some have "i = j" by (simp add: selectNode_def)
  with firstUnvisited_Some [OF Some] show ?thesis by simp
qed

lemma fillInChildren_fresh:
  "children nd = [] \<Longrightarrow> i < length (children (fillInChildren E nd)) \<Longrightarrow>
     nodeN (children (fillInChildren E nd) ! i) = 0"
  by (simp add: fillInChildren_def)

lemma size_child: "i < length (children nd) \<Longrightarrow> size (children nd ! i) < size nd"
proof -
  assume a: "i < length (children nd)"
  obtain w n m p cs where nd: "nd = Node w n m p cs" by (cases nd)
  from a nd have "cs ! i \<in> set cs" by simp
  then have "size (cs ! i) \<le> size_list size cs" by (rule size_list_estimation') simp
  with nd show ?thesis by simp
qed

function iterate ::
  "variant \<Rightarrow> 'x Engine \<Rightarrow> int \<Rightarrow> 'x node \<Rightarrow> Color \<Rightarrow> rng \<Rightarrow> (real \<times> 'x node \<times> rng) option" where
  "iterate v E N nd agentColor g =
     (if IsCheckMate E (pos nd) \<and> Turn (pos nd) \<noteq> agentColor then
        Some (1, Node (nodeW nd + 1) (nodeN nd + 1) (mov nd) (pos nd) (children nd), g)
      else if IsStaleMate E (pos nd) \<or> IsCheckMate E (pos nd) then
        Some (0, Node (nodeW nd) (nodeN nd + 1) (mov nd) (pos nd) (children nd), g)
      else
        let nd1 = (if length (children nd) = 0 then fillInChildren E nd else nd)
        in case selectNode N nd1 of
             None \<Rightarrow> None
           | Some i \<Rightarrow>
               let selectedNode = children nd1 ! i
               in if nodeN selectedNode = 0 then
                    let (result, g') = randomRollout v E (pos nd) agentColor g
                    in Some (result, setChild nd1 i (backPropagate result selectedNode), g')
                  else
                    (case iterate v E N selectedNode agentColor g of
                       None \<Rightarrow> None
                     | Some (result, selectedNode', g') \<Rightarrow>
                         Some (result, setChild nd1 i (backPropagate result selectedNode'),
                               g')))"
  by pat_completeness auto
termination
proof (relation "measure (\<lambda>(v, E, N, nd, agentColor, g). size nd)")
  show "wf (measure (\<lambda>(v, E, N, nd, agentColor, g). size nd))" by simp
next
  fix v :: variant and E :: "'x Engine" and N :: int and nd :: "'x node"
    and agentColor :: Color and g :: rng and nd1 i selectedNode
  assume nd1: "nd1 = (if length (children nd) = 0 then fillInChildren E nd else nd)"
    and sel: "selectNode N nd1 = Some i"
    and sn: "selectedNode = children nd1 ! i"
    and nz: "nodeN selectedNode \<noteq> 0"
  from selectNode_bound [OF sel] have b: "i < length (children nd1)" .
  have "children nd \<noteq> []"
  proof
    assume e: "children nd = []"
    with nd1 have "nd1 = fillInChildren E nd" by simp
    with fillInChildren_fresh [OF e, of i E] b sn nz show False by simp
  qed
  with nd1 have "nd1 = nd" by simp
  with b sn size_child [of i nd]
  show "((v, E, N, selectedNode, agentColor, g), (v, E, N, nd, agentColor, g))
          \<in> measure (\<lambda>(v, E, N, nd, agentColor, g). size nd)" by simp
qed


declare iterate.simps [simp del]

fun rewardBounded :: "'x node \<Rightarrow> bool" where
  "rewardBounded (Node w n m p cs) =
     (0 \<le> w \<and> w \<le> real_of_int n \<and> (\<forall>c \<in> set cs. rewardBounded c))"

fun averageInUnit :: "'x node \<Rightarrow> bool" where
  "averageInUnit (Node w n m p cs) =
     ((0 < n \<longrightarrow> 0 \<le> w / real_of_int n \<and> w / real_of_int n \<le> 1) \<and>
      (\<forall>c \<in> set cs. averageInUnit c))"

function visitsLeq :: "'x node \<Rightarrow> 'x node \<Rightarrow> bool" where
  "visitsLeq (Node w n m p cs) b =
     (n \<le> nodeN b \<and> length cs \<le> length (children b) \<and>
      (\<forall>i < length cs. visitsLeq (cs ! i) (children b ! i)))"
  by pat_completeness auto
termination
  apply (relation "measure (\<lambda>(a, b). size a)")
   apply simp
  subgoal for w n m p cs b x
    using size_child [of x "Node w n m p cs"] by simp
  done


definition expanded :: "'x Engine \<Rightarrow> 'x node \<Rightarrow> 'x node" where
  "expanded E nd = (if length (children nd) = 0 then fillInChildren E nd else nd)"

section \<open>Monte Carlo tree search: the iteration loops\<close>

text \<open>
  Both \<^verbatim>\<open>GetMove\<close> loops run batches of \<open>iterationsBetweenTimeChecks\<close>
  iterations until the wall clock has passed the configured duration. The clock
  decides the number of batches; the model takes the number of iterations as an
  argument. The receiver \<^verbatim>\<open>mcts\<close> is passed by value, so \<^verbatim>\<open>mcts.n++\<close>
  counts in the caller's copy, and each call of \<^verbatim>\<open>iterate\<close> sees the count
  of the iterations completed before it.

  \<open>singleTreeStep\<close> is the loop body \<^verbatim>\<open>mcts.iterate(parentNode, p.Turn); mcts.n++\<close>
  of the single-tree file. \<open>concurrentStep\<close> is the loop body
  \<^verbatim>\<open>n.w += mcts.iterate(n, agentColor); n.n++; mcts.n++\<close> that the parallel-root
  file runs for each child of the root in a goroutine of its own, on a subtree no
  other goroutine touches. Go does not fix whether \<^verbatim>\<open>n.w\<close> is read before or
  after the call on the right-hand side, which may change it; \<open>readFirst\<close> selects
  the order.
\<close>

definition iterationsBetweenTimeChecks :: nat where
  "iterationsBetweenTimeChecks = 100"

definition singleTreeStep ::
  "'x Engine \<Rightarrow> Color \<Rightarrow> int \<times> 'x node \<times> rng \<Rightarrow> (int \<times> 'x node \<times> rng) option" where
  "singleTreeStep E agentColor st =
     (case st of (N, parentNode, g) \<Rightarrow>
        (case iterate SingleTree E N parentNode agentColor g of
           None \<Rightarrow> None
         | Some (result, parentNode', g') \<Rightarrow> Some (N + 1, parentNode', g')))"

fun singleTreeLoop ::
  "'x Engine \<Rightarrow> Color \<Rightarrow> nat \<Rightarrow> int \<times> 'x node \<times> rng \<Rightarrow> (int \<times> 'x node \<times> rng) option" where
  "singleTreeLoop E agentColor 0 st = Some st"
| "singleTreeLoop E agentColor (Suc k) st =
     (case singleTreeStep E agentColor st of
        None \<Rightarrow> None
      | Some st' \<Rightarrow> singleTreeLoop E agentColor k st')"

definition singleTreeSearch ::
  "'x Engine \<Rightarrow> nat \<Rightarrow> 'x Position \<Rightarrow> rng \<Rightarrow> (int \<times> 'x node \<times> rng) option" where
  "singleTreeSearch E batches p g =
     singleTreeLoop E (Turn p) (iterationsBetweenTimeChecks * batches)
       (0, Node 0 0 noMove p [], g)"

definition concurrentStep ::
  "bool \<Rightarrow> 'x Engine \<Rightarrow> Color \<Rightarrow> int \<times> 'x node \<times> rng \<Rightarrow> (int \<times> 'x node \<times> rng) option" where
  "concurrentStep readFirst E agentColor st =
     (case st of (N, nd, g) \<Rightarrow>
        (case iterate ParallelRoot E N nd agentColor g of
           None \<Rightarrow> None
         | Some (result, nd', g') \<Rightarrow>
             Some (N + 1,
                   Node ((if readFirst then nodeW nd else nodeW nd') + result) (nodeN nd' + 1)
                     (mov nd') (pos nd') (children nd'),
                   g')))"

text \<open>
  A rules engine in which a position without legal moves is checkmate or stalemate.
\<close>

definition engineConsistent :: "'x Engine \<Rightarrow> bool" where
  "engineConsistent E =
     (\<forall>q. GenerateLegalMoves E q = [] \<longrightarrow> IsCheckMate E q \<or> IsStaleMate E q)"

section \<open>Alpha-beta search (package alphabeta)\<close>

text \<open>
  \<^verbatim>\<open>search\<close>, \<^verbatim>\<open>max\<close> and \<^verbatim>\<open>min\<close> call each other. The model ties the knot
  in \<open>search_ab\<close>: \<open>max_ab\<close> and \<open>min_ab\<close> take the function \<^verbatim>\<open>search\<close> as
  their first argument and only call it with \<open>depth - 1\<close>, and only when
  \<open>depth \<noteq> 0\<close> (the two congruence rules say so, which is what makes \<open>search_ab\<close>
  terminate). \<open>Depth\<close> is a natural number: with a negative depth the Go recursion
  never meets \<^verbatim>\<open>depth == 0\<close>.

  Each \<^verbatim>\<open>for ... range chess.GenerateLegalMoves(p)\<close> loop is a recursion over
  the move list that carries the loop variables; a \<^verbatim>\<open>break\<close> or \<^verbatim>\<open>return\<close>
  ends the recursion. The leaf loops are the bodies under \<^verbatim>\<open>if depth == 0\<close>.
  \<^verbatim>\<open>evaluate(&newPos)\<close> works on the caller's copy; only its score is used.
\<close>

type_synonym 'x search_ab = "'x Position \<Rightarrow> nat \<Rightarrow> real \<Rightarrow> real \<Rightarrow> Move \<times> real"

fun maxLeafLoop_ab ::
  "'x Engine \<Rightarrow> 'x Position \<Rightarrow> Move list \<Rightarrow> Move \<Rightarrow> real \<Rightarrow> real \<Rightarrow> Move \<times> real" where
  "maxLeafLoop_ab E p [] bestMove highestScore beta = (bestMove, highestScore)"
| "maxLeafLoop_ab E p (move # rest) bestMove highestScore beta =
     (let newPos = PositionMove E p move;
          score = fst (evaluate E newPos);
          bestMove' = (if score > highestScore then move else bestMove);
          highestScore' = (if score > highestScore then score else highestScore)
      in if highestScore' > beta then (bestMove', highestScore')
         else maxLeafLoop_ab E p rest bestMove' highestScore' beta)"

fun minLeafLoop_ab ::
  "'x Engine \<Rightarrow> 'x Position \<Rightarrow> Move list \<Rightarrow> Move \<Rightarrow> real \<Rightarrow> real \<Rightarrow> Move \<times> real" where
  "minLeafLoop_ab E p [] bestMove lowestScore alpha = (bestMove, lowestScore)"
| "minLeafLoop_ab E p (move # rest) bestMove lowestScore alpha =
     (let newPos = PositionMove E p move;
          score = fst (evaluate E newPos);
          bestMove' = (if score < lowestScore then move else bestMove);
          lowestScore' = (if score < lowestScore then score else lowestScore)
      in if lowestScore' < alpha then (bestMove', lowestScore')
         else minLeafLoop_ab E p rest bestMove' lowestScore' alpha)"

fun maxLoop_ab ::
  "'x search_ab \<Rightarrow> 'x Engine \<Rightarrow> 'x Position \<Rightarrow> nat \<Rightarrow> Move list \<Rightarrow> Move \<Rightarrow> real \<Rightarrow> real \<Rightarrow> real
     \<Rightarrow> Move \<times> real" where
  "maxLoop_ab search E p depth [] bestMove highestScore alpha beta = (bestMove, highestScore)"
| "maxLoop_ab search E p depth (move # rest) bestMove highestScore alpha beta =
     (let newPos = PositionMove E p move
      in if IsCheckMate E newPos then (move, MaxFloat64)
         else if IsStaleMate E newPos \<and> highestScore < 0 then
           maxLoop_ab search E p depth rest move 0 alpha beta
         else
           let score = snd (search newPos (depth - 1) alpha beta);
               bestMove' = (if score > highestScore then move else bestMove);
               highestScore' = (if score > highestScore then score else highestScore)
           in if highestScore' > beta then (bestMove', highestScore')
              else maxLoop_ab search E p depth rest bestMove' highestScore'
                     (if highestScore' > alpha then highestScore' else alpha) beta)"

fun minLoop_ab ::
  "'x search_ab \<Rightarrow> 'x Engine \<Rightarrow> 'x Position \<Rightarrow> nat \<Rightarrow> Move list \<Rightarrow> Move \<Rightarrow> real \<Rightarrow> real \<Rightarrow> real
     \<Rightarrow> Move \<times> real" where
  "minLoop_ab search E p depth [] bestMove lowestScore alpha beta = (bestMove, lowestScore)"
| "minLoop_ab search E p depth (move # rest) bestMove lowestScore alpha beta =
     (let newPos = PositionMove E p move
      in if IsCheckMate E newPos then (move, - MaxFloat64)
         else if IsStaleMate E newPos \<and> lowestScore > 0 then
           minLoop_ab search E p depth rest move 0 alpha beta
         else
           let score = snd (search newPos (depth - 1) alpha beta);
               bestMove' = (if score < lowestScore then move else bestMove);
               lowestScore' = (if score < lowestScore then score else lowestScore)
           in if lowestScore' < alpha then (bestMove', lowestScore')
              else minLoop_ab search E p depth rest bestMove' lowestScore' alpha
                     (if lowestScore' < beta then lowestScore' else beta))"

definition max_ab ::
  "'x search_ab \<Rightarrow> 'x Engine \<Rightarrow> 'x Position \<Rightarrow> nat \<Rightarrow> real \<Rightarrow> real \<Rightarrow> Move \<times> real" where
  "max_ab search E p depth alpha beta =
     (if depth = 0 then
        maxLeafLoop_ab E p (GenerateLegalMoves E p) noMove (- MaxFloat64) beta
      else
        maxLoop_ab search E p depth (GenerateLegalMoves E p) noMove (- MaxFloat64) alpha beta)"

definition min_ab ::
  "'x search_ab \<Rightarrow> 'x Engine \<Rightarrow> 'x Position \<Rightarrow> nat \<Rightarrow> real \<Rightarrow> real \<Rightarrow> Move \<times> real" where
  "min_ab search E p depth alpha beta =
     (if depth = 0 then
        minLeafLoop_ab E p (GenerateLegalMoves E p) noMove MaxFloat64 alpha
      else
        minLoop_ab search E p depth (GenerateLegalMoves E p) noMove MaxFloat64 alpha beta)"

lemma maxLoop_ab_cong:
  "(\<And>q a b. s q (depth - 1) a b = s' q (depth - 1) a b) \<Longrightarrow>
     maxLoop_ab s E p depth ms bm h alpha beta = maxLoop_ab s' E p depth ms bm h alpha beta"
  by (induction ms arbitrary: bm h alpha) (simp_all add: Let_def)

lemma minLoop_ab_cong:
  "(\<And>q a b. s q (depth - 1) a b = s' q (depth - 1) a b) \<Longrightarrow>
     minLoop_ab s E p depth ms bm l alpha beta = minLoop_ab s' E p depth ms bm l alpha beta"
  by (induction ms arbitrary: bm l beta) (simp_all add: Let_def)

lemma max_ab_cong [fundef_cong]:
  "E = E' \<Longrightarrow> p = p' \<Longrightarrow> depth = depth' \<Longrightarrow> alpha = alpha' \<Longrightarrow> beta = beta' \<Longrightarrow>
   (\<And>q a b. depth' \<noteq> 0 \<Longrightarrow> s q (depth' - 1) a b = s' q (depth' - 1) a b) \<Longrightarrow>
     max_ab s E p depth alpha beta = max_ab s' E' p' depth' alpha' beta'"
  by (auto simp: max_ab_def intro: maxLoop_ab_cong)

lemma min_ab_cong [fundef_cong]:
  "E = E' \<Longrightarrow> p = p' \<Longrightarrow> depth = depth' \<Longrightarrow> alpha = alpha' \<Longrightarrow> beta = beta' \<Longrightarrow>
   (\<And>q a b. depth' \<noteq> 0 \<Longrightarrow> s q (depth' - 1) a b = s' q (depth' - 1) a b) \<Longrightarrow>
     min_ab s E p depth alpha beta = min_ab s' E' p' depth' alpha' beta'"
  by (auto simp: min_ab_def intro: minLoop_ab_cong)

function search_ab :: "'x Engine \<Rightarrow> 'x Position \<Rightarrow> nat \<Rightarrow> real \<Rightarrow> real \<Rightarrow> Move \<times> real" where
  "search_ab E p depth alpha beta =
     (if Turn p = White then max_ab (search_ab E) E p depth alpha beta
      else if Turn p = Black then min_ab (search_ab E) E p depth alpha beta
      else (noMove, 0))"
  by pat_completeness auto
termination
  by (relation "measure (\<lambda>(E, p, depth, alpha, beta). depth)") auto


declare search_ab.simps [simp del]

definition GetMove_ab :: "'x Engine \<Rightarrow> nat \<Rightarrow> 'x Position \<Rightarrow> Move" where
  "GetMove_ab E Depth p = fst (search_ab E p Depth (- MaxFloat64) MaxFloat64)"

section \<open>Minimax with the threat-count evaluator (package minmax, earlier version)\<close>

text \<open>
  The repository holds two versions of package minmax. They have the same
  \<^verbatim>\<open>search\<close>, \<^verbatim>\<open>max\<close> and \<^verbatim>\<open>min\<close> and differ in \<^verbatim>\<open>evaluate\<close>: this
  version adds \<^verbatim>\<open>numPseudoLegalChecks\<close> to the material, as package alphabeta
  does, with the same text.
\<close>

type_synonym 'x search_mm = "'x Position \<Rightarrow> nat \<Rightarrow> Move \<times> real"

fun maxLeafLoop_mm ::
  "'x Engine \<Rightarrow> 'x Position \<Rightarrow> Move list \<Rightarrow> Move \<Rightarrow> real \<Rightarrow> Move \<times> real" where
  "maxLeafLoop_mm E p [] bestMove highestScore = (bestMove, highestScore)"
| "maxLeafLoop_mm E p (move # rest) bestMove highestScore =
     (let newPos = PositionMove E p move;
          score = fst (evaluate E newPos);
          bestMove' = (if score > highestScore then move else bestMove);
          highestScore' = (if score > highestScore then score else highestScore)
      in maxLeafLoop_mm E p rest bestMove' highestScore')"

fun minLeafLoop_mm ::
  "'x Engine \<Rightarrow> 'x Position \<Rightarrow> Move list \<Rightarrow> Move \<Rightarrow> real \<Rightarrow> Move \<times> real" where
  "minLeafLoop_mm E p [] bestMove lowestScore = (bestMove, lowestScore)"
| "minLeafLoop_mm E p (move # rest) bestMove lowestScore =
     (let newPos = PositionMove E p move;
          score = fst (evaluate E newPos);
          bestMove' = (if score < lowestScore then move else bestMove);
          lowestScore' = (if score < lowestScore then score else lowestScore)
      in minLeafLoop_mm E p rest bestMove' lowestScore')"

fun maxLoop_mm ::
  "'x search_mm \<Rightarrow> 'x Engine \<Rightarrow> 'x Position \<Rightarrow> nat \<Rightarrow> Move list \<Rightarrow> Move \<Rightarrow> real \<Rightarrow> Move \<times> real" where
  "maxLoop_mm search E p depth [] bestMove highestScore = (bestMove, highestScore)"
| "maxLoop_mm search E p depth (move # rest) bestMove highestScore =
     (let newPos = PositionMove E p move
      in if IsCheckMate E newPos then (move, MaxFloat64)
         else if IsStaleMate E newPos \<and> highestScore < 0 then
           maxLoop_mm search E p depth rest move 0
         else
           let score = snd (search newPos (depth - 1));
               bestMove' = (if score > highestScore then move else bestMove);
               highestScore' = (if score > highestScore then score else highestScore)
           in maxLoop_mm search E p depth rest bestMove' highestScore')"

fun minLoop_mm ::
  "'x search_mm \<Rightarrow> 'x Engine \<Rightarrow> 'x Position \<Rightarrow> nat \<Rightarrow> Move list \<Rightarrow> Move \<Rightarrow> real \<Rightarrow> Move \<times> real" where
  "minLoop_mm search E p depth [] bestMove lowestScore = (bestMove, lowestScore)"
| "minLoop_mm search E p depth (move # rest) bestMove lowestScore =
     (let newPos = PositionMove E p move
      in if IsCheckMate E newPos then (move, - MaxFloat64)
         else if IsStaleMate E newPos \<and> lowestScore > 0 then
           minLoop_mm search E p depth rest move 0
         else
           let score = snd (search newPos (depth - 1));
               bestMove' = (if score < lowestScore then move else bestMove);
               lowestScore' = (if score < lowestScore then score else lowestScore)
           in minLoop_mm search E p depth rest bestMove' lowestScore')"

definition max_mm :: "'x search_mm \<Rightarrow> 'x Engine \<Rightarrow> 'x Position \<Rightarrow> nat \<Rightarrow> Move \<times> real" where
  "max_mm search E p depth =
     (if depth = 0 then maxLeafLoop_mm E p (GenerateLegalMoves E p) noMove (- MaxFloat64)
      else maxLoop_mm search E p depth (GenerateLegalMoves E p) noMove (- MaxFloat64))"

definition min_mm :: "'x search_mm \<Rightarrow> 'x Engine \<Rightarrow> 'x Position \<Rightarrow> nat \<Rightarrow> Move \<times> real" where
  "min_mm search E p depth =
     (if depth = 0 then minLeafLoop_mm E p (GenerateLegalMoves E p) noMove MaxFloat64
      else minLoop_mm search E p depth (GenerateLegalMoves E p) noMove MaxFloat64)"

lemma maxLoop_mm_cong:
  "(\<And>q. s q (depth - 1) = s' q (depth - 1)) \<Longrightarrow>
     maxLoop_mm s E p depth ms bm h = maxLoop_mm s' E p depth ms bm h"
  by (induction ms arbitrary: bm h) (simp_all add: Let_def)

lemma minLoop_mm_cong:
  "(\<And>q. s q (depth - 1) = s' q (depth - 1)) \<Longrightarrow>
     minLoop_mm s E p depth ms bm l = minLoop_mm s' E p depth ms bm l"
  by (induction ms arbitrary: bm l) (simp_all add: Let_def)

lemma max_mm_cong [fundef_cong]:
  "E = E' \<Longrightarrow> p = p' \<Longrightarrow> depth = depth' \<Longrightarrow>
   (\<And>q. depth' \<noteq> 0 \<Longrightarrow> s q (depth' - 1) = s' q (depth' - 1)) \<Longrightarrow>
     max_mm s E p depth = max_mm s' E' p' depth'"
  by (auto simp: max_mm_def intro: maxLoop_mm_cong)

lemma min_mm_cong [fundef_cong]:
  "E = E' \<Longrightarrow> p = p' \<Longrightarrow> depth = depth' \<Longrightarrow>
   (\<And>q. depth' \<noteq> 0 \<Longrightarrow> s q (depth' - 1) = s' q (depth' - 1)) \<Longrightarrow>
     min_mm s E p depth = min_mm s' E' p' depth'"
  by (auto simp: min_mm_def intro: minLoop_mm_cong)

function search_mm :: "'x Engine \<Rightarrow> 'x Position \<Rightarrow> nat \<Rightarrow> Move \<times> real" where
  "search_mm E p depth =
     (if Turn p = White then max_mm (search_mm E) E p depth
      else if Turn p = Black then min_mm (search_mm E) E p depth
      else (noMove, 0))"
  by pat_completeness auto
termination
  by (relation "measure (\<lambda>(E, p, depth). depth)") auto

declare search_mm.simps [simp del]

definition GetMove_mm :: "'x Engine \<Rightarrow> nat \<Rightarrow> 'x Position \<Rightarrow> Move" where
  "GetMove_mm E Depth p = fst (search_mm E p Depth)"

section \<open>Minimax with the exchange evaluator (minmax/minmax.go)\<close>

text \<open>
  The version in minmax/minmax.go adds \<^verbatim>\<open>calcAttacks\<close> to the material.
  \<^verbatim>\<open>simulateAttacks\<close> plays the cheapest legal move onto a square and calls
  itself on the resulting position. Nothing in the repository bounds that
  recursion, so it is a partial function, and the evaluator and the search built
  on it return \<open>None\<close> when it does not return.
\<close>

fun attackLoop ::
  "'x Engine \<Rightarrow> 'x Position \<Rightarrow> Square \<Rightarrow> Move list \<Rightarrow> real \<Rightarrow> Move \<Rightarrow> real \<times> Move" where
  "attackLoop E p square [] lowestCost lowestCostMove = (lowestCost, lowestCostMove)"
| "attackLoop E p square (move # rest) lowestCost lowestCostMove =
     (if ToSquare move \<noteq> square then attackLoop E p square rest lowestCost lowestCostMove
      else
        let cost = getPieceValue (PieceAt E p (FromSquare move));
            (lowestCost1, lowestCostMove1) =
              (if Turn p = White \<and> cost < lowestCost then (cost, move)
               else (lowestCost, lowestCostMove));
            (lowestCost2, lowestCostMove2) =
              (if Turn p = Black \<and> cost > lowestCost1 then (cost, move)
               else (lowestCost1, lowestCostMove1))
        in attackLoop E p square rest lowestCost2 lowestCostMove2)"

partial_function (option) simulateAttacks ::
  "'x Engine \<Rightarrow> 'x Position \<Rightarrow> Square \<Rightarrow> real option" where
  "simulateAttacks E p square =
     (let legalMoves = GenerateLegalMoves E p;
          lowestCost = (if Turn p = Black then MaxFloat64 * (- 1) else MaxFloat64);
          (lowestCost', lowestCostMove) = attackLoop E p square legalMoves lowestCost noMove
      in if lowestCostMove = noMove then Some 0
         else Option.bind (simulateAttacks E (PositionMove E p lowestCostMove) square)
                (\<lambda>r. Some (r - lowestCost')))"

fun calcAttacksLoop :: "'x Engine \<Rightarrow> 'x Position \<Rightarrow> Square list \<Rightarrow> real \<Rightarrow> real option" where
  "calcAttacksLoop E p [] total' = Some total'"
| "calcAttacksLoop E p (square # rest) total' =
     (case simulateAttacks E p square of
        None \<Rightarrow> None
      | Some a \<Rightarrow> calcAttacksLoop E p rest (total' + a))"

definition calcAttacks :: "'x Engine \<Rightarrow> 'x Position \<Rightarrow> real option" where
  "calcAttacks E p = calcAttacksLoop E p (AllSquares E) 0"

definition evaluate_mmB :: "'x Engine \<Rightarrow> 'x Position \<Rightarrow> real option" where
  "evaluate_mmB E p =
     (let total = sumMaterial p
      in case calcAttacks E p of None \<Rightarrow> None | Some a \<Rightarrow> Some (total + a))"

type_synonym 'x search_mmB = "'x Position \<Rightarrow> nat \<Rightarrow> (Move \<times> real) option"

fun maxLeafLoop_mmB ::
  "'x Engine \<Rightarrow> 'x Position \<Rightarrow> Move list \<Rightarrow> Move \<Rightarrow> real \<Rightarrow> (Move \<times> real) option" where
  "maxLeafLoop_mmB E p [] bestMove highestScore = Some (bestMove, highestScore)"
| "maxLeafLoop_mmB E p (move # rest) bestMove highestScore =
     (let newPos = PositionMove E p move
      in case evaluate_mmB E newPos of
           None \<Rightarrow> None
         | Some score \<Rightarrow>
             maxLeafLoop_mmB E p rest
               (if score > highestScore then move else bestMove)
               (if score > highestScore then score else highestScore))"

fun minLeafLoop_mmB ::
  "'x Engine \<Rightarrow> 'x Position \<Rightarrow> Move list \<Rightarrow> Move \<Rightarrow> real \<Rightarrow> (Move \<times> real) option" where
  "minLeafLoop_mmB E p [] bestMove lowestScore = Some (bestMove, lowestScore)"
| "minLeafLoop_mmB E p (move # rest) bestMove lowestScore =
     (let newPos = PositionMove E p move
      in case evaluate_mmB E newPos of
           None \<Rightarrow> None
         | Some score \<Rightarrow>
             minLeafLoop_mmB E p rest
               (if score < lowestScore then move else bestMove)
               (if score < lowestScore then score else lowestScore))"

fun maxLoop_mmB ::
  "'x search_mmB \<Rightarrow> 'x Engine \<Rightarrow> 'x Position \<Rightarrow> nat \<Rightarrow> Move list \<Rightarrow> Move \<Rightarrow> real
     \<Rightarrow> (Move \<times> real) option" where
  "maxLoop_mmB search E p depth [] bestMove highestScore = Some (bestMove, highestScore)"
| "maxLoop_mmB search E p depth (move # rest) bestMove highestScore =
     (let newPos = PositionMove E p move
      in if IsCheckMate E newPos then Some (move, MaxFloat64)
         else if IsStaleMate E newPos \<and> highestScore < 0 then
           maxLoop_mmB search E p depth rest move 0
         else
           case search newPos (depth - 1) of
             None \<Rightarrow> None
           | Some (m, score) \<Rightarrow>
               maxLoop_mmB search E p depth rest
                 (if score > highestScore then move else bestMove)
                 (if score > highestScore then score else highestScore))"

fun minLoop_mmB ::
  "'x search_mmB \<Rightarrow> 'x Engine \<Rightarrow> 'x Position \<Rightarrow> nat \<Rightarrow> Move list \<Rightarrow> Move \<Rightarrow> real
     \<Rightarrow> (Move \<times> real) option" where
  "minLoop_mmB search E p depth [] bestMove lowestScore = Some (bestMove, lowestScore)"
| "minLoop_mmB search E p depth (move # rest) bestMove lowestScore =
     (let newPos = PositionMove E p move
      in if IsCheckMate E newPos then Some (move, - MaxFloat64)
         else if IsStaleMate E newPos \<and> lowestScore > 0 then
           minLoop_mmB search E p depth rest move 0
         else
           case search newPos (depth - 1) of
             None \<Rightarrow> None
           | Some (m, score) \<Rightarrow>
               minLoop_mmB search E p depth rest
                 (if score < lowestScore then move else bestMove)
                 (if score < lowestScore then score else lowestScore))"

definition max_mmB ::
  "'x search_mmB \<Rightarrow> 'x Engine \<Rightarrow> 'x Position \<Rightarrow> nat \<Rightarrow> (Move \<times> real) option" where
  "max_mmB search E p depth =
     (if depth = 0 then maxLeafLoop_mmB E p (GenerateLegalMoves E p) noMove (- MaxFloat64)
      else maxLoop_mmB search E p depth (GenerateLegalMoves E p) noMove (- MaxFloat64))"

definition min_mmB ::
  "'x search_mmB \<Rightarrow> 'x Engine \<Rightarrow> 'x Position \<Rightarrow> nat \<Rightarrow> (Move \<times> real) option" where
  "min_mmB search E p depth =
     (if depth = 0 then minLeafLoop_mmB E p (GenerateLegalMoves E p) noMove MaxFloat64
      else minLoop_mmB search E p depth (GenerateLegalMoves E p) noMove MaxFloat64)"

lemma maxLoop_mmB_cong:
  "(\<And>q. s q (depth - 1) = s' q (depth - 1)) \<Longrightarrow>
     maxLoop_mmB s E p depth ms bm h = maxLoop_mmB s' E p depth ms bm h"
  by (induction ms arbitrary: bm h) (simp_all add: Let_def split: option.splits)

lemma minLoop_mmB_cong:
  "(\<And>q. s q (depth - 1) = s' q (depth - 1)) \<Longrightarrow>
     minLoop_mmB s E p depth ms bm l = minLoop_mmB s' E p depth ms bm l"
  by (induction ms arbitrary: bm l) (simp_all add: Let_def split: option.splits)

lemma max_mmB_cong [fundef_cong]:
  "E = E' \<Longrightarrow> p = p' \<Longrightarrow> depth = depth' \<Longrightarrow>
   (\<And>q. depth' \<noteq> 0 \<Longrightarrow> s q (depth' - 1) = s' q (depth' - 1)) \<Longrightarrow>
     max_mmB s E p depth = max_mmB s' E' p' depth'"
  by (auto simp: max_mmB_def intro: maxLoop_mmB_cong)

lemma min_mmB_cong [fundef_cong]:
  "E = E' \<Longrightarrow> p = p' \<Longrightarrow> depth = depth' \<Longrightarrow>
   (\<And>q. depth' \<noteq> 0 \<Longrightarrow> s q (depth' - 1) = s' q (depth' - 1)) \<Longrightarrow>
     min_mmB s E p depth = min_mmB s' E' p' depth'"
  by (auto simp: min_mmB_def intro: minLoop_mmB_cong)

function search_mmB :: "'x Engine \<Rightarrow> 'x Position \<Rightarrow> nat \<Rightarrow> (Move \<times> real) option" where
  "search_mmB E p depth =
     (if Turn p = White then max_mmB (search_mmB E) E p depth
      else if Turn p = Black then min_mmB (search_mmB E) E p depth
      else Some (noMove, 0))"
  by pat_completeness auto
termination
  by (relation "measure (\<lambda>(E, p, depth). depth)") auto

declare search_mmB.simps [simp del]

definition GetMove_mmB :: "'x Engine \<Rightarrow> nat \<Rightarrow> 'x Position \<Rightarrow> Move option" where
  "GetMove_mmB E Depth p = map_option fst (search_mmB E p Depth)"

section \<open>When the two searches are compared\<close>

text \<open>
  \<open>noStalemate E p depth\<close>: no move from \<open>p\<close>, and no move from any position the
  search of \<open>p\<close> to \<open>depth\<close> expands, leads to a stalemate position.
  \<open>noDeepStalemate\<close> asks this of the positions after the first move only, so a
  move of the root itself may stalemate. \<open>finiteScores\<close>: every score the search
  computes with \<open>evaluate\<close> lies between \<open>- MaxFloat64\<close> and \<open>MaxFloat64\<close>, as
  every finite \<^verbatim>\<open>float64\<close> does. \<open>agrees v r alpha beta\<close> relates the minimax
  score \<open>v\<close> of a position to the score \<open>r\<close> alpha-beta returns for the window
  \<open>(alpha, beta)\<close>: equal inside the window, on the same side outside.
  \<open>sameScores\<close>: on every position the search evaluates, the exchange evaluator
  of minmax/minmax.go returns, and returns the score of the threat-count
  evaluator.
\<close>

fun noStalemate :: "'x Engine \<Rightarrow> 'x Position \<Rightarrow> nat \<Rightarrow> bool" where
  "noStalemate E p 0 = True"
| "noStalemate E p (Suc d) =
     (\<forall>move \<in> set (GenerateLegalMoves E p).
        \<not> IsStaleMate E (PositionMove E p move) \<and> noStalemate E (PositionMove E p move) d)"

fun finiteScores :: "'x Engine \<Rightarrow> 'x Position \<Rightarrow> nat \<Rightarrow> bool" where
  "finiteScores E p 0 =
     (\<forall>move \<in> set (GenerateLegalMoves E p).
        \<bar>fst (evaluate E (PositionMove E p move))\<bar> \<le> MaxFloat64)"
| "finiteScores E p (Suc d) =
     (\<forall>move \<in> set (GenerateLegalMoves E p). finiteScores E (PositionMove E p move) d)"

definition agrees :: "real \<Rightarrow> real \<Rightarrow> real \<Rightarrow> real \<Rightarrow> bool" where
  "agrees v r alpha beta =
     ((alpha \<le> v \<and> v \<le> beta \<longrightarrow> r = v) \<and> (v < alpha \<longrightarrow> r < alpha) \<and> (beta < v \<longrightarrow> beta < r))"

fun sameScores :: "'x Engine \<Rightarrow> 'x Position \<Rightarrow> nat \<Rightarrow> bool" where
  "sameScores E p 0 =
     (\<forall>move \<in> set (GenerateLegalMoves E p).
        evaluate_mmB E (PositionMove E p move) = Some (fst (evaluate E (PositionMove E p move))))"
| "sameScores E p (Suc d) =
     (\<forall>move \<in> set (GenerateLegalMoves E p). sameScores E (PositionMove E p move) d)"

definition noDeepStalemate :: "'x Engine \<Rightarrow> 'x Position \<Rightarrow> nat \<Rightarrow> bool" where
  "noDeepStalemate E p depth =
     (\<forall>move \<in> set (GenerateLegalMoves E p). noStalemate E (PositionMove E p move) (depth - 1))"

section \<open>The harness (main.go)\<close>

text \<open>
  \<^verbatim>\<open>main\<close> drives a \<^verbatim>\<open>chess.Game\<close>, which belongs to the rules engine; its
  methods are the fields of a \<open>Game\<close> record (\<open>GameMove\<close> returns \<open>None\<close> where
  \<^verbatim>\<open>game.Move\<close> returns an error). Every call of \<^verbatim>\<open>os.Exit\<close> in main.go is
  one constructor of \<open>ending\<close>; \<open>exitCode\<close> is the argument of that call and
  \<open>printed\<close> the message that precedes it. The board and the moves printed
  during play and the \<^verbatim>\<open>-log\<close> flag, which ends no run, are left out.

  An agent is its \<^verbatim>\<open>GetMove\<close>; \<open>None\<close> is the human agent running out of
  input, which exits the process. A panic inside an agent and the exit of
  \<^verbatim>\<open>flag.Parse\<close> on a malformed command line happen outside main.go and are
  not modelled. The game loop need not end, so it is a partial function.
\<close>

record ('g, 'x) Game =
  NewGame :: 'g
  GameIsCheckMate :: "'g \<Rightarrow> bool"
  GameCanClaimDraw :: "'g \<Rightarrow> bool"
  GameTurn :: "'g \<Rightarrow> Color"
  GamePosition :: "'g \<Rightarrow> 'x Position"
  GameMove :: "'g \<Rightarrow> Move \<Rightarrow> 'g option"

datatype ending =
    CheckmateEnded Color
  | DrawClaimed
  | NoOutcome
  | TurnNotBlackOrWhite
  | InvalidAgentMove
  | NoHumanMove
  | HelpPrinted
  | BadPlayer1
  | BadPlayer2

fun exitCode :: "ending \<Rightarrow> int" where
  "exitCode (CheckmateEnded c) = 0"
| "exitCode DrawClaimed = 1"
| "exitCode NoOutcome = 1"
| "exitCode TurnNotBlackOrWhite = 1"
| "exitCode InvalidAgentMove = 1"
| "exitCode NoHumanMove = 1"
| "exitCode HelpPrinted = 0"
| "exitCode BadPlayer1 = 1"
| "exitCode BadPlayer2 = 1"

fun printed :: "ending \<Rightarrow> string" where
  "printed (CheckmateEnded Black) = ''White Wins!''"
| "printed (CheckmateEnded White) = ''Black Wins!''"
| "printed (CheckmateEnded NoColor) = ''''"
| "printed DrawClaimed = ''The Game has been automatically Drawn''"
| "printed NoOutcome = ''the program ended without checkmate or draw''"
| "printed TurnNotBlackOrWhite = ''game.Turn() is not black or white''"
| "printed InvalidAgentMove = ''agent provided invalid move''"
| "printed NoHumanMove = ''could not get valid move from human''"
| "printed HelpPrinted = ''''"
| "printed BadPlayer1 = ''could not parse -p1 argument''"
| "printed BadPlayer2 = ''could not parse -p2 argument''"

type_synonym 'x agent = "'x Position \<Rightarrow> Move option"

partial_function (option) gameLoop ::
  "('g, 'x) Game \<Rightarrow> 'x agent \<times> 'x agent \<Rightarrow> 'g \<Rightarrow> ending option" where
  "gameLoop G agents game =
     (if \<not> GameIsCheckMate G game \<and> \<not> GameCanClaimDraw G game then
        (if GameTurn G game = White \<or> GameTurn G game = Black then
           (case (if GameTurn G game = White then fst agents else snd agents)
                   (GamePosition G game) of
              None \<Rightarrow> Some NoHumanMove
            | Some move \<Rightarrow>
                (case GameMove G game move of
                   None \<Rightarrow> Some InvalidAgentMove
                 | Some game' \<Rightarrow> gameLoop G agents game'))
         else Some TurnNotBlackOrWhite)
      else if GameIsCheckMate G game then Some (CheckmateEnded (GameTurn G game))
      else if GameCanClaimDraw G game then Some DrawClaimed
      else Some NoOutcome)"

definition toLowerChar :: "char \<Rightarrow> char" where
  "toLowerChar c =
     (case map_of (zip ''ABCDEFGHIJKLMNOPQRSTUVWXYZ'' ''abcdefghijklmnopqrstuvwxyz'') c of
        None \<Rightarrow> c
      | Some l \<Rightarrow> l)"

definition ToLower :: "string \<Rightarrow> string" where
  "ToLower s = map toLowerChar s"

datatype ChessAgent = Human | Mcts int | Minmax int | AlphaBeta int

record flags =
  printHelp :: bool
  player1 :: string
  player2 :: string
  player1Option :: int
  player2Option :: int

definition parsePlayer :: "string \<Rightarrow> int \<Rightarrow> ChessAgent option" where
  "parsePlayer name opt =
     (let s = ToLower name in
      if s = ''human'' then Some Human
      else if s = ''mcts'' then Some (Mcts opt)
      else if s = ''minmax'' then Some (Minmax opt)
      else if s = ''ab'' then Some (AlphaBeta opt)
      else None)"

definition parseArgs :: "flags \<Rightarrow> ending + ChessAgent \<times> ChessAgent" where
  "parseArgs f =
     (if printHelp f then Inl HelpPrinted
      else case parsePlayer (player1 f) (player1Option f) of
             None \<Rightarrow> Inl BadPlayer1
           | Some a0 \<Rightarrow>
               (case parsePlayer (player2 f) (player2Option f) of
                  None \<Rightarrow> Inl BadPlayer2
                | Some a1 \<Rightarrow> Inr (a0, a1)))"

definition main ::
  "('g, 'x) Game \<Rightarrow> (ChessAgent \<Rightarrow> 'x agent) \<Rightarrow> flags \<Rightarrow> ending option" where
  "main G GetMove f =
     (case parseArgs f of
        Inl e \<Rightarrow> Some e
      | Inr agents \<Rightarrow> gameLoop G (GetMove (fst agents), GetMove (snd agents)) (NewGame G))"

definition loopEnding :: "ending \<Rightarrow> bool" where
  "loopEnding e =
     (case e of
        CheckmateEnded c \<Rightarrow> True
      | DrawClaimed \<Rightarrow> True
      | InvalidAgentMove \<Rightarrow> True
      | NoHumanMove \<Rightarrow> True
      | TurnNotBlackOrWhite \<Rightarrow> True
      | _ \<Rightarrow> False)"

section \<open>Concrete inputs\<close>

text \<open>
  A rules engine in which every position has the one legal move \<open>noMove\<close>, which
  leaves the position as it is, and no position is terminal; and positions that
  differ in material only. In \<open>knightsApart\<close> and \<open>knightsLate\<close> White has king,
  queen and knight against king and knight, in two orders of the board.
\<close>

definition idleEngine :: "unit Engine" where
  "idleEngine =
     \<lparr>GenerateLegalMoves = (\<lambda>p. [noMove]),
      GeneratePseudoLegalMoves = (\<lambda>p. []),
      IsCheckMate = (\<lambda>p. False),
      IsStaleMate = (\<lambda>p. False),
      PositionMove = (\<lambda>p m. p),
      PieceAt = (\<lambda>p s. Piece NoColor NoPieceType),
      AllSquares = []\<rparr>"

definition queenUp :: "unit Position" where
  "queenUp = \<lparr>Turn = White,
              Board = [Piece White King, Piece White Queen, Piece Black King],
              Rest = ()\<rparr>"

definition queenAndPawnUp :: "unit Position" where
  "queenAndPawnUp = \<lparr>Turn = White,
              Board = [Piece White King, Piece White Queen, Piece White Pawn, Piece Black King],
              Rest = ()\<rparr>"

definition knightsApart :: "unit Position" where
  "knightsApart = \<lparr>Turn = White,
              Board = [Piece White King, Piece White Queen, Piece Black Knight,
                       Piece Black King, Piece White Knight],
              Rest = ()\<rparr>"

definition knightsLate :: "unit Position" where
  "knightsLate = \<lparr>Turn = White,
              Board = [Piece White King, Piece White Queen, Piece White Knight,
                       Piece Black King, Piece Black Knight],
              Rest = ()\<rparr>"

definition zeroDraws :: rng where
  "zeroDraws = (\<lambda>i. 0)"

definition emptyPosition :: "unit Position" where
  "emptyPosition = \<lparr>Turn = White, Board = [], Rest = ()\<rparr>"

definition threeChildren :: "unit node" where
  "threeChildren =
     Node 0 0 noMove emptyPosition
       [Node 1 1 noMove emptyPosition [],
        Node 0 0 noMove emptyPosition [],
        Node 0 0 noMove emptyPosition []]"

text \<open>
  A position in which White has one legal move, and that move checkmates Black.
\<close>

definition mateMove :: Move where
  "mateMove = \<lparr>FromSquare = Square 4 1, ToSquare = Square 4 8, Promotion = NoPieceType\<rparr>"

definition mateInOne :: "nat Position" where
  "mateInOne = \<lparr>Turn = White, Board = [], Rest = 0\<rparr>"

definition mated :: "nat Position" where
  "mated = \<lparr>Turn = Black, Board = [], Rest = 1\<rparr>"

definition mateEngine :: "nat Engine" where
  "mateEngine =
     \<lparr>GenerateLegalMoves = (\<lambda>p. if Rest p = 0 then [mateMove] else []),
      GeneratePseudoLegalMoves = (\<lambda>p. []),
      IsCheckMate = (\<lambda>p. Rest p = 1),
      IsStaleMate = (\<lambda>p. False),
      PositionMove = (\<lambda>p m. mated),
      PieceAt = (\<lambda>p s. Piece NoColor NoPieceType),
      AllSquares = []\<rparr>"

text \<open>
  A game that counts its moves: a draw can be claimed after the first move, and
  the null move is not legal. \<open>matingGame\<close> is checkmate after the first move
  instead. The scripted agents play the null move for Minimax and a pawn move
  otherwise.
\<close>

definition countingGame :: "(nat, unit) Game" where
  "countingGame =
     \<lparr>NewGame = 0,
      GameIsCheckMate = (\<lambda>g. False),
      GameCanClaimDraw = (\<lambda>g. 1 \<le> g),
      GameTurn = (\<lambda>g. if even g then White else Black),
      GamePosition = (\<lambda>g. emptyPosition),
      GameMove = (\<lambda>g m. if m = noMove then None else Some (Suc g))\<rparr>"

definition matingGame :: "(nat, unit) Game" where
  "matingGame = countingGame\<lparr>GameIsCheckMate := (\<lambda>g. 1 \<le> g)\<rparr>"

definition someMove :: Move where
  "someMove = \<lparr>FromSquare = Square 5 2, ToSquare = Square 5 4, Promotion = NoPieceType\<rparr>"

definition scriptedGetMove :: "ChessAgent \<Rightarrow> unit agent" where
  "scriptedGetMove a = (case a of Minmax d \<Rightarrow> (\<lambda>p. Some noMove) | _ \<Rightarrow> (\<lambda>p. Some someMove))"

definition flagsOf :: "string \<Rightarrow> string \<Rightarrow> flags" where
  "flagsOf p1 p2 =
     \<lparr>printHelp = False, player1 = p1, player2 = p2, player1Option = 2, player2Option = 2\<rparr>"

text \<open>
  Game trees given by a table. Positions are numbered in \<open>Rest\<close>; the move
  \<open>moveTo k\<close> leads to position \<open>k\<close>.

  \<open>treeEngine\<close>: White is to move at the root 0. Position 10 is a stalemate;
  positions 4, 8 and 9 are worth 2, 1 and -5 in material, positions 3, 7 and 10
  are worth 3, -1 and 5.
  \<^verbatim>\<open>
  0 (White) -- 1 (Black) -- 2 (White) -- 3 (Black) -- 4
            \- 5 (Black) -- 6 (White) -- 7 (Black) -- 8
                                      |            \- 9
                                      \- 10 (Black, stalemate)
  \<close>
\<close>

definition moveTo :: "nat \<Rightarrow> Move" where
  "moveTo k = \<lparr>FromSquare = Square 1 1, ToSquare = Square k 1, Promotion = NoPieceType\<rparr>"

definition treeKids :: "nat \<Rightarrow> nat list" where
  "treeKids k =
     (if k = 0 then [1, 5] else if k = 1 then [2] else if k = 2 then [3] else if k = 3 then [4]
      else if k = 5 then [6] else if k = 6 then [7, 10] else if k = 7 then [8, 9] else [])"

definition treeTurn :: "nat \<Rightarrow> Color" where
  "treeTurn k = (if k \<in> {0, 2, 6, 4, 8, 9} then White else Black)"

definition treeBoard :: "nat \<Rightarrow> Piece list" where
  "treeBoard k =
     (if k = 4 then [Piece White Pawn, Piece White Pawn]
      else if k = 8 then [Piece White Pawn]
      else if k = 9 then [Piece Black Rook]
      else if k = 3 then [Piece White Bishop]
      else if k = 7 then [Piece Black Pawn]
      else if k = 10 then [Piece White Rook]
      else [])"

definition treeNode :: "nat \<Rightarrow> nat Position" where
  "treeNode k = \<lparr>Turn = treeTurn k, Board = treeBoard k, Rest = k\<rparr>"

definition treeEngine :: "nat Engine" where
  "treeEngine =
     \<lparr>GenerateLegalMoves = (\<lambda>p. map moveTo (treeKids (Rest p))),
      GeneratePseudoLegalMoves = (\<lambda>p. []),
      IsCheckMate = (\<lambda>p. False),
      IsStaleMate = (\<lambda>p. Rest p = 10),
      PositionMove = (\<lambda>p m. treeNode (File (ToSquare m))),
      PieceAt = (\<lambda>p s. Piece NoColor NoPieceType),
      AllSquares = []\<rparr>"

text \<open>
  \<open>checkEngine\<close>: the only move from \<open>checkRoot\<close> leads to \<open>checkChild\<close>, where
  one pseudo-legal move of White goes to the square of Black's king and no move
  is legal.
\<close>

definition kingSquare :: Square where
  "kingSquare = Square 5 8"

definition checkMove :: Move where
  "checkMove = \<lparr>FromSquare = Square 5 1, ToSquare = kingSquare, Promotion = NoPieceType\<rparr>"

definition checkRoot :: "nat Position" where
  "checkRoot = \<lparr>Turn = White, Board = [], Rest = 0\<rparr>"

definition checkChild :: "nat Position" where
  "checkChild = \<lparr>Turn = Black, Board = [], Rest = 1\<rparr>"

definition checkEngine :: "nat Engine" where
  "checkEngine =
     \<lparr>GenerateLegalMoves = (\<lambda>p. if Rest p = 0 then [moveTo 1] else []),
      GeneratePseudoLegalMoves = (\<lambda>p. if Rest p = 1 \<and> Turn p = White then [checkMove] else []),
      IsCheckMate = (\<lambda>p. False),
      IsStaleMate = (\<lambda>p. False),
      PositionMove = (\<lambda>p m. checkChild),
      PieceAt = (\<lambda>p s. if s = kingSquare then Piece Black King else Piece NoColor NoPieceType),
      AllSquares = [kingSquare]\<rparr>"

text \<open>
  \<open>lineEngine\<close>: White at position 0 has one legal move, to position 1; Black
  at position 1 has one legal move, to position 2, where White is checkmated.
\<close>

definition lineKids :: "nat \<Rightarrow> nat list" where
  "lineKids k = (if k = 0 then [1] else if k = 1 then [2] else [])"

definition lineNode :: "nat \<Rightarrow> nat Position" where
  "lineNode k = \<lparr>Turn = (if k = 1 then Black else White), Board = [], Rest = k\<rparr>"

definition lineEngine :: "nat Engine" where
  "lineEngine =
     \<lparr>GenerateLegalMoves = (\<lambda>p. map moveTo (lineKids (Rest p))),
      GeneratePseudoLegalMoves = (\<lambda>p. []),
      IsCheckMate = (\<lambda>p. Rest p = 2),
      IsStaleMate = (\<lambda>p. False),
      PositionMove = (\<lambda>p m. lineNode (File (ToSquare m))),
      PieceAt = (\<lambda>p s. Piece NoColor NoPieceType),
      AllSquares = []\<rparr>"

section \<open>Properties\<close>

subsection \<open>The evaluator restores the position\<close>

text \<open>
  C10. \<open>numPseudoLegalChecks\<close> sets the side to move to White, then to Black, and
  writes the original side back before it returns; \<open>evaluate\<close> therefore hands back
  the position it was given, side to move and board included.
\<close>

theorem evaluate_restores_position:
  "snd (numPseudoLegalChecks E p) = p \<and>
   snd (evaluate E p) = p \<and>
   Turn (snd (evaluate E p)) = Turn p \<and>
   Board (snd (evaluate E p)) = Board p"
proof -
  have a: "snd (numPseudoLegalChecks E p) = p"
    by (simp add: numPseudoLegalChecks_def Let_def)
  have b: "snd (evaluate E p) = p"
    using a by (simp add: evaluate_def Let_def split_beta)
  show ?thesis using a b by simp
qed

subsection \<open>Rollout rewards\<close>

lemma determineReward_cases:
  "determineReward p c = 0 \<or> determineReward p c = 1 / 2 \<or> determineReward p c = 1"
  by (cases c) (simp_all add: determineReward_def Let_def)

lemma capReward_cases:
  "capReward v p c = 0 \<or> capReward v p c = 1 / 2 \<or> capReward v p c = 1"
  using determineReward_cases [of p c] by (cases v) (simp_all add: capReward_def)

lemma rolloutLoop_cases:
  "fst (rolloutLoop v E k p c g) = 0 \<or> fst (rolloutLoop v E k p c g) = 1 / 2 \<or>
   fst (rolloutLoop v E k p c g) = 1"
proof (induction k arbitrary: p g)
  case 0
  show ?case using capReward_cases [of v p c] by simp
next
  case (Suc k)
  show ?case
  proof (cases "IsCheckMate E p \<or> length (GenerateLegalMoves E p) = 0")
    case True
    then show ?thesis by auto
  next
    case False
    obtain i g' where ig: "IntN g (length (GenerateLegalMoves E p)) = (i, g')"
      by (cases "IntN g (length (GenerateLegalMoves E p))")
    have "rolloutLoop v E (Suc k) p c g =
          rolloutLoop v E k (PositionMove E p (GenerateLegalMoves E p ! i)) c g'"
      using False ig by (simp add: Let_def)
    then show ?thesis
      using Suc.IH [of "PositionMove E p (GenerateLegalMoves E p ! i)" g'] by simp
  qed
qed

text \<open>
  C5. Whatever the position, the agent colour and the random draws, a rollout of
  either MCTS variant returns 0, 0.5 or 1, and so does the material fallback
  \<open>determineReward\<close>.
\<close>

theorem rollout_reward_domain:
  "fst (randomRollout v E p agentColor g) \<in> {0, 1 / 2, 1} \<and>
   determineReward p agentColor \<in> {0, 1 / 2, 1}"
  using rolloutLoop_cases [of v E "randomRolloutLength v" p agentColor g]
        determineReward_cases [of p agentColor]
  by (auto simp: randomRollout_def)

subsection \<open>Unvisited children are selected first\<close>

text \<open>
  C4. When some child has no visits, \<open>selectNode\<close> returns the first child with no
  visits in the order of the child list: the selected child has \<open>n = 0\<close> and every
  child before it has been visited. In particular no visited child is selected
  while an unvisited sibling exists. The two MCTS files have the same
  \<^verbatim>\<open>selectNode\<close>.
\<close>

theorem selectNode_unvisited_first:
  assumes "\<exists>c \<in> set (children nd). nodeN c = 0"
  shows "\<exists>i. selectNode N nd = Some i \<and> i < length (children nd) \<and>
             nodeN (children nd ! i) = 0 \<and>
             (\<forall>j. j < i \<longrightarrow> nodeN (children nd ! j) \<noteq> 0)"
proof (cases "firstUnvisited (children nd) 0")
  case None
  with assms firstUnvisited_None show ?thesis by blast
next
  case (Some i)
  from firstUnvisited_Some [OF Some] have
    "i < length (children nd) \<and> nodeN (children nd ! i) = 0 \<and>
     (\<forall>j. j < i \<longrightarrow> nodeN (children nd ! j) \<noteq> 0)" by simp
  moreover have "selectNode N nd = Some i" using Some by (simp add: selectNode_def)
  ultimately show ?thesis by blast
qed

theorem selectNode_unvisited_first_witness:
  "\<exists>i. selectNode 5 threeChildren = Some i \<and> i < length (children threeChildren) \<and>
       nodeN (children threeChildren ! i) = 0 \<and>
       (\<forall>j. j < i \<longrightarrow> nodeN (children threeChildren ! j) \<noteq> 0)"
proof -
  have h: "\<exists>c \<in> set (children threeChildren). nodeN c = 0"
    by (simp add: threeChildren_def)
  show ?thesis using selectNode_unvisited_first [OF h, of 5] .
qed

subsection \<open>The material fallback of the 20-ply rollout\<close>

lemma rolloutLoop_at_cap:
  "rolloutCapPosition E k p g = Some q \<Longrightarrow> fst (rolloutLoop v E k p c g) = capReward v q c"
proof (induction k arbitrary: p g)
  case 0
  then show ?case by simp
next
  case (Suc k)
  from Suc.prems have nt: "\<not> IsCheckMate E p" "length (GenerateLegalMoves E p) \<noteq> 0"
    by (auto simp: Let_def split: if_splits)
  obtain i g' where ig: "IntN g (length (GenerateLegalMoves E p)) = (i, g')"
    by (cases "IntN g (length (GenerateLegalMoves E p))")
  from Suc.prems nt ig
  have "rolloutCapPosition E k (PositionMove E p (GenerateLegalMoves E p ! i)) g' = Some q"
    by (simp add: Let_def)
  from Suc.IH [OF this] show ?case using nt ig by (simp add: Let_def)
qed

lemma idle_cap_position: "rolloutCapPosition idleEngine k p g = Some p"
  by (induction k arbitrary: g) (simp_all add: idleEngine_def Let_def split_beta)

text \<open>
  The rounding of \<open>round53\<close>: a value of fewer than 54 bits is returned as it is;
  otherwise the result is a multiple of \<open>2 ^ dropBits m\<close> with a quotient of at most
  53 bits (or \<open>2^53\<close>), at most half that spacing away from \<open>m\<close>. The constant
  \<open>knight\<close> lies between 2 and 4 and less than half a spacing from 2.9.
\<close>

lemma round53_exact: "\<bar>n\<bar> < 2 ^ 53 \<Longrightarrow> round53 n = n"
proof -
  assume a: "\<bar>n\<bar> < 2 ^ 53"
  then have "nat \<bar>n\<bar> < 2 ^ 53" by (simp add: nat_less_iff)
  then have "dropBits (nat \<bar>n\<bar>) = 0" by (simp add: dropBits.simps)
  then have "roundBits (nat \<bar>n\<bar>) = nat \<bar>n\<bar>" by (simp add: roundBits_def)
  then show ?thesis by (simp add: round53_def sgn_if)
qed

lemma dropBits_significand: "m div 2 ^ dropBits m < 2 ^ 53"
proof (induction m rule: dropBits.induct)
  case (1 m)
  show ?case
  proof (cases "m < 2 ^ 53")
    case True
    then show ?thesis by (simp add: dropBits.simps)
  next
    case False
    then have "dropBits m = Suc (dropBits (m div 2))" by (simp add: dropBits.simps)
    moreover have "m div 2 div 2 ^ dropBits (m div 2) < 2 ^ 53" using 1 False by simp
    ultimately show ?thesis by (simp add: div_mult2_eq)
  qed
qed

lemma roundBits_nearest:
  "2 ^ dropBits m dvd roundBits m \<and>
   2 * \<bar>int (roundBits m) - int m\<bar> \<le> int (2 ^ dropBits m) \<and>
   roundBits m div 2 ^ dropBits m \<le> 2 ^ 53"
proof (cases "dropBits m")
  case 0
  then show ?thesis using dropBits_significand [of m] by (simp add: roundBits_def)
next
  case (Suc k)
  define d :: nat where "d = 2 ^ Suc k"
  define q where "q = m div d"
  define r where "r = m mod d"
  have d: "d = 2 * 2 ^ k" "d div 2 = 2 ^ k" "0 < d" by (simp_all add: d_def)
  have m: "m = q * d + r" unfolding q_def r_def by (rule div_mult_mod_eq [symmetric])
  have r: "r < d" using d(3) by (simp add: r_def)
  have q: "q < 2 ^ 53" using dropBits_significand [of m] Suc by (simp add: q_def d_def)
  have rb: "roundBits m =
              (if r > 2 ^ k \<or> (r = 2 ^ k \<and> odd q) then (q + 1) * d else q * d)"
    unfolding roundBits_def Let_def Suc d_def [symmetric] q_def [symmetric] r_def [symmetric] d(2)
    by simp
  show ?thesis
  proof (cases "r > 2 ^ k \<or> (r = 2 ^ k \<and> odd q)")
    case True
    then have rb': "roundBits m = (q + 1) * d" unfolding rb by (simp only: if_True)
    have ge: "int d \<le> 2 * int r" using True d(1) by auto
    have "int (roundBits m) - int m = int d - int r"
      unfolding rb' by (subst m) (simp add: algebra_simps)
    then have "2 * \<bar>int (roundBits m) - int m\<bar> \<le> int d" using ge r by (simp add: abs_if)
    moreover have "roundBits m div d = q + 1" using d(3) by (simp add: rb')
    moreover have "d dvd roundBits m" by (simp add: rb')
    ultimately show ?thesis using q unfolding Suc d_def [symmetric] by simp
  next
    case False
    then have rb': "roundBits m = q * d" unfolding rb by (simp only: if_False)
    have le: "2 * int r \<le> int d" using False d(1) by auto
    have "int (roundBits m) - int m = - int r"
      unfolding rb' by (subst m) (simp add: algebra_simps)
    then have "2 * \<bar>int (roundBits m) - int m\<bar> \<le> int d" using le by (simp add: abs_if)
    moreover have "roundBits m div d = q" using d(3) by (simp add: rb')
    moreover have "d dvd roundBits m" by (simp add: rb')
    ultimately show ?thesis using q unfolding Suc d_def [symmetric] by simp
  qed
qed

lemma knight_nearest:
  "\<bar>valueOf knight - 29 / 10\<bar> < 1 / 2 ^ 52 \<and> 2 \<le> valueOf knight \<and> valueOf knight < 4"
  by (simp add: valueOf_def knight_def abs_if)

lemma valueOf_fromInt: "valueOf (fromInt k) = real_of_int k"
  by (simp add: valueOf_def fromInt_def)

lemma valueOf_gt: "valueOf a > 8 \<longleftrightarrow> a > fromInt 8"
proof -
  have "valueOf a > 8 \<longleftrightarrow> real_of_int a > real_of_int (fromInt 8)"
    by (simp add: valueOf_def fromInt_def field_simps)
  then show ?thesis by (simp only: of_int_less_iff)
qed

lemma valueOf_lt: "valueOf a < - 8 \<longleftrightarrow> a < - fromInt 8"
proof -
  have "valueOf a < - 8 \<longleftrightarrow> real_of_int a < real_of_int (- fromInt 8)"
    by (simp add: valueOf_def fromInt_def field_simps)
  then show ?thesis by (simp only: of_int_less_iff)
qed

lemmas float64_eval = getPositionValue_def addFloat64_def subFloat64_def round53_def
  roundBits_def fromInt_def knight_def dropBits.simps Let_def

text \<open>
  The sums of the four boards. King, queen and knight against king and knight is
  \<open>8\<close> by the nominal piece values; the \<^verbatim>\<open>float64\<close> sum is \<open>8 + 820 / 2^51\<close> on
  \<open>knightsApart\<close> and \<open>8 - 820 / 2^51\<close> on \<open>knightsLate\<close>, because the first
  knight is added to a total near 10000, where the spacing is \<open>2^-39\<close>.
\<close>

lemma getPositionValue_queenUp: "getPositionValue queenUp = fromInt 8"
  by (simp add: queenUp_def float64_eval)

lemma getPositionValue_queenAndPawnUp: "getPositionValue queenAndPawnUp = fromInt 9"
  by (simp add: queenAndPawnUp_def float64_eval)

lemma getPositionValue_knightsApart: "getPositionValue knightsApart = fromInt 8 + 820"
  by (simp add: knightsApart_def float64_eval)

lemma getPositionValue_knightsLate: "getPositionValue knightsLate = fromInt 8 - 820"
  by (simp add: knightsLate_def float64_eval)

text \<open>
  C6 as stated fails at a material sum of exactly 8: White has king and queen
  against a king when the cap is reached (the sum \<open>10000 + 8 - 10000\<close> has no
  rounding), the difference in the agent's favour has magnitude \<open>\<ge> 8\<close>, and the
  rollout returns 0.5, not 1.
\<close>

theorem rollout_threshold_counterexample:
  "rolloutCapPosition idleEngine (randomRolloutLength ParallelRoot) queenUp zeroDraws
     = Some queenUp \<and>
   materialFor White queenUp \<ge> 8 \<and>
   fst (randomRollout ParallelRoot idleEngine queenUp White zeroDraws) = 1 / 2 \<and>
   fst (randomRollout ParallelRoot idleEngine queenUp White zeroDraws) \<noteq> 1"
proof -
  have c: "rolloutCapPosition idleEngine (randomRolloutLength ParallelRoot) queenUp zeroDraws
             = Some queenUp"
    by (rule idle_cap_position)
  have r: "fst (randomRollout ParallelRoot idleEngine queenUp White zeroDraws) = 1 / 2"
    unfolding randomRollout_def rolloutLoop_at_cap [OF c]
    by (simp add: capReward_def determineReward_def getPositionValue_queenUp limitForWin_def
          fromInt_def)
  show ?thesis using c r
    by (simp add: materialFor_def getPositionValue_queenUp valueOf_fromInt)
qed

text \<open>
  C6, amended. When the 20-ply rollout reaches its cap at position \<open>q\<close> without a
  terminal state, the result for a White or Black agent is 1 if the material sum
  of \<open>q\<close> in the agent's favour, as \<^verbatim>\<open>getPositionValue\<close> adds it up in
  \<^verbatim>\<open>float64\<close>, is strictly greater than 8, 0 if it is strictly less than -8, and
  0.5 otherwise, in particular when that sum is exactly 8 or -8. The sum is the
  one the code computes: with knights on the board it can differ from the
  difference of the nominal piece values in its last bits, and the order of the
  pieces in the board then decides on which side of 8 it falls. The witness has
  a queen and a pawn up (1 for White, 0 for Black), a queen up (0.5 for Black), and
  the two boards with knights: a nominal difference of 8 gives 1 for White on
  \<open>knightsApart\<close> and 0.5 on \<open>knightsLate\<close>.
\<close>

theorem rollout_cap_reward:
  assumes "rolloutCapPosition E (randomRolloutLength ParallelRoot) p g = Some q"
    and "agentColor = White \<or> agentColor = Black"
  shows "fst (randomRollout ParallelRoot E p agentColor g) =
           (if materialFor agentColor q > 8 then 1
            else if materialFor agentColor q < - 8 then 0
            else 1 / 2)"
proof -
  have r: "fst (randomRollout ParallelRoot E p agentColor g) = determineReward q agentColor"
    unfolding randomRollout_def rolloutLoop_at_cap [OF assms(1)]
    by (simp add: capReward_def)
  have gt: "valueOf (getPositionValue q) > 8 \<longleftrightarrow> getPositionValue q > limitForWin"
    unfolding limitForWin_def by (rule valueOf_gt)
  have lt: "valueOf (getPositionValue q) < - 8 \<longleftrightarrow> getPositionValue q < - limitForWin"
    unfolding limitForWin_def by (rule valueOf_lt)
  from assms(2) show ?thesis
  proof
    assume "agentColor = White"
    then show ?thesis unfolding r
      by (simp add: determineReward_def materialFor_def Let_def gt lt)
  next
    assume "agentColor = Black"
    then show ?thesis unfolding r
      using gt lt by (auto simp: determineReward_def materialFor_def Let_def)
  qed
qed

theorem rollout_cap_reward_witness:
  "fst (randomRollout ParallelRoot idleEngine queenAndPawnUp White zeroDraws) = 1 \<and>
   fst (randomRollout ParallelRoot idleEngine queenAndPawnUp Black zeroDraws) = 0 \<and>
   fst (randomRollout ParallelRoot idleEngine queenUp Black zeroDraws) = 1 / 2 \<and>
   fst (randomRollout ParallelRoot idleEngine knightsApart White zeroDraws) = 1 \<and>
   fst (randomRollout ParallelRoot idleEngine knightsLate White zeroDraws) = 1 / 2"
proof -
  have a: "rolloutCapPosition idleEngine (randomRolloutLength ParallelRoot) queenAndPawnUp
             zeroDraws = Some queenAndPawnUp"
    by (rule idle_cap_position)
  have b: "rolloutCapPosition idleEngine (randomRolloutLength ParallelRoot) queenUp
             zeroDraws = Some queenUp"
    by (rule idle_cap_position)
  have c: "rolloutCapPosition idleEngine (randomRolloutLength ParallelRoot) knightsApart
             zeroDraws = Some knightsApart"
    by (rule idle_cap_position)
  have d: "rolloutCapPosition idleEngine (randomRolloutLength ParallelRoot) knightsLate
             zeroDraws = Some knightsLate"
    by (rule idle_cap_position)
  have m: "materialFor White queenAndPawnUp = 9" "materialFor Black queenAndPawnUp = - 9"
    "materialFor Black queenUp = - 8"
    "materialFor White knightsApart = 8 + 820 / 2 ^ 51"
    "materialFor White knightsLate = 8 - 820 / 2 ^ 51"
    by (simp_all add: materialFor_def getPositionValue_queenUp getPositionValue_queenAndPawnUp
          getPositionValue_knightsApart getPositionValue_knightsLate valueOf_def fromInt_def)
  show ?thesis
    using rollout_cap_reward [OF a, of White] rollout_cap_reward [OF a, of Black]
          rollout_cap_reward [OF b, of Black] rollout_cap_reward [OF c, of White]
          rollout_cap_reward [OF d, of White]
    unfolding m by simp
qed

subsection \<open>One iteration of the tree search\<close>

lemma iterate_terminal_win:
  "IsCheckMate E (pos nd) \<and> Turn (pos nd) \<noteq> c \<Longrightarrow>
     iterate v E N nd c g =
       Some (1, Node (nodeW nd + 1) (nodeN nd + 1) (mov nd) (pos nd) (children nd), g)"
  by (subst iterate.simps) simp

lemma iterate_terminal_other:
  "\<not> (IsCheckMate E (pos nd) \<and> Turn (pos nd) \<noteq> c) \<Longrightarrow>
   IsStaleMate E (pos nd) \<or> IsCheckMate E (pos nd) \<Longrightarrow>
     iterate v E N nd c g =
       Some (0, Node (nodeW nd) (nodeN nd + 1) (mov nd) (pos nd) (children nd), g)"
  by (subst iterate.simps) simp

lemma iterate_inner:
  assumes "\<not> IsCheckMate E (pos nd)" and "\<not> IsStaleMate E (pos nd)"
  shows "iterate v E N nd c g =
     (case selectNode N (expanded E nd) of
        None \<Rightarrow> None
      | Some i \<Rightarrow>
          if nodeN (children (expanded E nd) ! i) = 0 then
            Some (fst (randomRollout v E (pos nd) c g),
                  setChild (expanded E nd) i
                    (backPropagate (fst (randomRollout v E (pos nd) c g))
                       (children (expanded E nd) ! i)),
                  snd (randomRollout v E (pos nd) c g))
          else
            (case iterate v E N (children (expanded E nd) ! i) c g of
               None \<Rightarrow> None
             | Some (result, selectedNode', g') \<Rightarrow>
                 Some (result, setChild (expanded E nd) i (backPropagate result selectedNode'),
                       g')))"
  using assms
  by (subst iterate.simps) (simp add: expanded_def Let_def split_beta split: option.splits)

lemma iterate_cases:
  assumes "iterate v E N nd c g = Some (r, nd', g')"
  obtains
    (win) "IsCheckMate E (pos nd)" "Turn (pos nd) \<noteq> c" "r = 1" "g' = g"
      "nd' = Node (nodeW nd + 1) (nodeN nd + 1) (mov nd) (pos nd) (children nd)"
  | (other) "IsStaleMate E (pos nd) \<or> IsCheckMate E (pos nd)" "r = 0" "g' = g"
      "nd' = Node (nodeW nd) (nodeN nd + 1) (mov nd) (pos nd) (children nd)"
  | (rollout) i where "\<not> IsCheckMate E (pos nd)" "\<not> IsStaleMate E (pos nd)"
      "selectNode N (expanded E nd) = Some i" "i < length (children (expanded E nd))"
      "nodeN (children (expanded E nd) ! i) = 0"
      "r = fst (randomRollout v E (pos nd) c g)"
      "nd' = setChild (expanded E nd) i (backPropagate r (children (expanded E nd) ! i))"
  | (descend) i sel' where "\<not> IsCheckMate E (pos nd)" "\<not> IsStaleMate E (pos nd)"
      "selectNode N (expanded E nd) = Some i" "i < length (children (expanded E nd))"
      "nodeN (children (expanded E nd) ! i) \<noteq> 0"
      "children nd \<noteq> []" "expanded E nd = nd"
      "iterate v E N (children nd ! i) c g = Some (r, sel', g')"
      "nd' = setChild nd i (backPropagate r sel')"
proof (cases "IsCheckMate E (pos nd) \<and> Turn (pos nd) \<noteq> c")
  case True
  with assms iterate_terminal_win [OF True, of v N g] win show ?thesis by simp
next
  case nw: False
  show ?thesis
  proof (cases "IsStaleMate E (pos nd) \<or> IsCheckMate E (pos nd)")
    case True
    with assms iterate_terminal_other [OF nw True, of v N g] other show ?thesis by simp
  next
    case False
    then have nt: "\<not> IsCheckMate E (pos nd)" "\<not> IsStaleMate E (pos nd)" by simp_all
    note eq = iterate_inner [OF nt, of v N c g]
    from assms eq obtain i where sel: "selectNode N (expanded E nd) = Some i"
      by (auto split: option.splits)
    from selectNode_bound [OF sel] have b: "i < length (children (expanded E nd))" .
    show ?thesis
    proof (cases "nodeN (children (expanded E nd) ! i) = 0")
      case True
      with assms eq sel have "r = fst (randomRollout v E (pos nd) c g)"
        "nd' = setChild (expanded E nd) i (backPropagate r (children (expanded E nd) ! i))"
        by auto
      with rollout nt sel b True show ?thesis by blast
    next
      case False
      have ne: "children nd \<noteq> []"
      proof
        assume e: "children nd = []"
        then have "expanded E nd = fillInChildren E nd" by (simp add: expanded_def)
        with fillInChildren_fresh [OF e, of i E] b False show False by simp
      qed
      then have ex: "expanded E nd = nd" by (simp add: expanded_def)
      from assms eq sel False ex obtain sel' where
        "iterate v E N (children nd ! i) c g = Some (r, sel', g')"
        "nd' = setChild nd i (backPropagate r sel')"
        by (auto split: option.splits)
      with descend nt sel b False ne ex show ?thesis by blast
    qed
  qed
qed


lemma rollout_unit:
  "0 \<le> fst (randomRollout v E p c g) \<and> fst (randomRollout v E p c g) \<le> 1"
  using rolloutLoop_cases [of v E "randomRolloutLength v" p c g]
  by (auto simp: randomRollout_def)

lemma rewardBounded_sel:
  "rewardBounded nd =
     (0 \<le> nodeW nd \<and> nodeW nd \<le> real_of_int (nodeN nd) \<and>
      (\<forall>c \<in> set (children nd). rewardBounded c))"
  by (cases nd) simp

lemma visitsLeq_sel:
  "visitsLeq a b =
     (nodeN a \<le> nodeN b \<and> length (children a) \<le> length (children b) \<and>
      (\<forall>i < length (children a). visitsLeq (children a ! i) (children b ! i)))"
  by (cases a) simp

lemma rewardBounded_expanded: "rewardBounded nd \<Longrightarrow> rewardBounded (expanded E nd)"
  by (cases nd) (auto simp: expanded_def fillInChildren_def)

lemma rewardBounded_setChild:
  "rewardBounded nd \<Longrightarrow> rewardBounded c' \<Longrightarrow> rewardBounded (setChild nd i c')"
  by (cases nd) (auto simp: setChild_def dest: set_update_subset_insert [THEN subsetD])

lemma rewardBounded_backPropagate:
  "rewardBounded c \<Longrightarrow> 0 \<le> r \<Longrightarrow> r \<le> 1 \<Longrightarrow> rewardBounded (backPropagate r c)"
  by (cases c) (simp add: backPropagate_def)

lemma visitsLeq_refl: "visitsLeq a a"
proof (induction a)
  case (Node w n m p cs)
  then show ?case by simp
qed

lemma visitsLeq_trans: "visitsLeq a b \<Longrightarrow> visitsLeq b c \<Longrightarrow> visitsLeq a c"
proof (induction a arbitrary: b c)
  case (Node w n m p cs)
  from Node.prems(1) have ab: "n \<le> nodeN b" "length cs \<le> length (children b)"
    "\<forall>i < length cs. visitsLeq (cs ! i) (children b ! i)" by simp_all
  from Node.prems(2) have bc: "nodeN b \<le> nodeN c" "length (children b) \<le> length (children c)"
    "\<forall>i < length (children b). visitsLeq (children b ! i) (children c ! i)"
    by (simp_all add: visitsLeq_sel [of b c])
  have "\<forall>i < length cs. visitsLeq (cs ! i) (children c ! i)"
  proof (intro allI impI)
    fix i assume i: "i < length cs"
    then have "cs ! i \<in> set cs" by simp
    from Node.IH [OF this, of "children b ! i" "children c ! i"] ab bc i
    show "visitsLeq (cs ! i) (children c ! i)" by simp
  qed
  with ab bc show ?case by simp
qed

lemma visitsLeq_expanded: "visitsLeq nd (expanded E nd)"
  by (cases nd) (simp add: expanded_def fillInChildren_def visitsLeq_refl)

lemma visitsLeq_setChild:
  "i < length (children nd) \<Longrightarrow> visitsLeq (children nd ! i) c' \<Longrightarrow>
     visitsLeq nd (setChild nd i c')"
  by (cases nd) (simp add: setChild_def nth_list_update visitsLeq_refl)

lemma visitsLeq_backPropagate: "visitsLeq a b \<Longrightarrow> visitsLeq a (backPropagate r b)"
  by (cases a) (simp add: backPropagate_def)

lemma rewardBounded_averageInUnit: "rewardBounded nd \<Longrightarrow> averageInUnit nd"
proof (induction nd)
  case (Node w n m p cs)
  then show ?case by (auto simp: divide_le_eq)
qed

lemma iterate_preserves:
  assumes "iterate v E N nd c g = Some (r, nd', g')" and "rewardBounded nd"
  shows "rewardBounded nd' \<and> 0 \<le> r \<and> r \<le> 1 \<and> visitsLeq nd nd'"
  using assms
proof (induction "size nd" arbitrary: nd r nd' g g' rule: less_induct)
  case less
  note rb = less.prems(2)
  from rb have sel: "0 \<le> nodeW nd" "nodeW nd \<le> real_of_int (nodeN nd)"
    "\<forall>c \<in> set (children nd). rewardBounded c"
    by (simp_all add: rewardBounded_sel [of nd])
  from less.prems(1) show ?case
  proof (cases rule: iterate_cases)
    case win
    with sel show ?thesis
      by (simp add: visitsLeq_sel [of nd] visitsLeq_refl)
  next
    case other
    with sel show ?thesis
      by (simp add: visitsLeq_sel [of nd] visitsLeq_refl)
  next
    case (rollout i)
    let ?e = "expanded E nd"
    from rollout(6) rollout_unit [of v E "pos nd" c g] have r: "0 \<le> r" "r \<le> 1" by simp_all
    have rbe: "rewardBounded ?e" using rb by (rule rewardBounded_expanded)
    with rollout(4) have "rewardBounded (children ?e ! i)"
      by (simp add: rewardBounded_sel [of ?e])
    then have "rewardBounded (backPropagate r (children ?e ! i))"
      using r by (rule rewardBounded_backPropagate)
    with rbe have 1: "rewardBounded nd'"
      unfolding rollout(7) by (rule rewardBounded_setChild)
    have "visitsLeq ?e nd'" unfolding rollout(7)
      using rollout(4) by (intro visitsLeq_setChild visitsLeq_backPropagate visitsLeq_refl)
    with visitsLeq_expanded [of nd E] have "visitsLeq nd nd'" by (rule visitsLeq_trans)
    with 1 r show ?thesis by simp
  next
    case (descend i sel')
    from descend(4,7) have i: "i < length (children nd)" by simp
    then have "rewardBounded (children nd ! i)" using sel(3) by simp
    from less.hyps [OF size_child [OF i] descend(8) this]
    have ih: "rewardBounded sel'" "0 \<le> r" "r \<le> 1" "visitsLeq (children nd ! i) sel'"
      by simp_all
    from ih(1-3) have "rewardBounded (backPropagate r sel')"
      by (rule rewardBounded_backPropagate)
    with rb have 1: "rewardBounded nd'"
      unfolding descend(9) by (rule rewardBounded_setChild)
    have "visitsLeq nd nd'" unfolding descend(9)
      using i ih(4) by (intro visitsLeq_setChild visitsLeq_backPropagate)
    with 1 ih show ?thesis by simp
  qed
qed

lemma selectNode_Some: "children nd \<noteq> [] \<Longrightarrow> \<exists>i. selectNode N nd = Some i"
  by (simp add: selectNode_def split: option.splits)

lemma expanded_children:
  "engineConsistent E \<Longrightarrow> \<not> IsCheckMate E (pos nd) \<Longrightarrow> \<not> IsStaleMate E (pos nd) \<Longrightarrow>
     children (expanded E nd) \<noteq> []"
  by (auto simp: expanded_def fillInChildren_def engineConsistent_def)

lemma iterate_total:
  assumes "engineConsistent E"
  shows "\<exists>r nd' g'. iterate v E N nd c g = Some (r, nd', g')"
proof (induction "size nd" arbitrary: nd g rule: less_induct)
  case less
  show ?case
  proof (cases "IsCheckMate E (pos nd) \<and> Turn (pos nd) \<noteq> c")
    case True
    from iterate_terminal_win [OF True] show ?thesis by blast
  next
    case nw: False
    show ?thesis
    proof (cases "IsStaleMate E (pos nd) \<or> IsCheckMate E (pos nd)")
      case True
      from iterate_terminal_other [OF nw True] show ?thesis by blast
    next
      case False
      then have nt: "\<not> IsCheckMate E (pos nd)" "\<not> IsStaleMate E (pos nd)" by simp_all
      note eq = iterate_inner [OF nt, of v N c g]
      from selectNode_Some [OF expanded_children [OF assms nt]]
      obtain i where sel: "selectNode N (expanded E nd) = Some i" by blast
      from selectNode_bound [OF sel] have b: "i < length (children (expanded E nd))" .
      show ?thesis
      proof (cases "nodeN (children (expanded E nd) ! i) = 0")
        case True
        with eq sel show ?thesis by simp
      next
        case False
        have "children nd \<noteq> []"
        proof
          assume e: "children nd = []"
          then have "expanded E nd = fillInChildren E nd" by (simp add: expanded_def)
          with fillInChildren_fresh [OF e, of i E] b False show False by simp
        qed
        then have ex: "expanded E nd = nd" by (simp add: expanded_def)
        with b have "size (children nd ! i) < size nd" by (simp add: size_child)
        from less.hyps [OF this, of g] obtain r s' g' where
          "iterate v E N (children nd ! i) c g = Some (r, s', g')" by blast
        with eq sel False ex show ?thesis by simp
      qed
    qed
  qed
qed





lemma concurrentStep_preserves:
  assumes "concurrentStep readFirst E c (N, nd, g) = Some (N', nd', g')" and "rewardBounded nd"
  shows "rewardBounded nd' \<and> visitsLeq nd nd'"
proof -
  from assms(1) obtain r nd1 where
    it: "iterate ParallelRoot E N nd c g = Some (r, nd1, g')"
    and nd': "nd' = Node ((if readFirst then nodeW nd else nodeW nd1) + r) (nodeN nd1 + 1)
                      (mov nd1) (pos nd1) (children nd1)"
    by (auto simp: concurrentStep_def split: option.splits)
  from iterate_preserves [OF it assms(2)]
  have p: "rewardBounded nd1" "0 \<le> r" "r \<le> 1" "visitsLeq nd nd1" by simp_all
  from p(1) have b1: "0 \<le> nodeW nd1" "nodeW nd1 \<le> real_of_int (nodeN nd1)"
    "\<forall>c \<in> set (children nd1). rewardBounded c"
    by (simp_all add: rewardBounded_sel [of nd1])
  from assms(2) have b0: "0 \<le> nodeW nd" "nodeW nd \<le> real_of_int (nodeN nd)"
    by (simp_all add: rewardBounded_sel [of nd])
  from p(4) have le: "nodeN nd \<le> nodeN nd1" "length (children nd) \<le> length (children nd1)"
    "\<forall>i < length (children nd). visitsLeq (children nd ! i) (children nd1 ! i)"
    by (simp_all add: visitsLeq_sel [of nd nd1])
  have 1: "rewardBounded nd'"
    unfolding nd' using b0 b1 p(2,3) le(1) by auto
  have 2: "visitsLeq nd nd'"
    unfolding nd' using le by (simp add: visitsLeq_sel [of nd])
  from 1 2 show ?thesis by simp
qed

lemma idleEngine_consistent: "engineConsistent idleEngine"
  by (simp add: engineConsistent_def idleEngine_def)

subsection \<open>Rewards and visits of a node\<close>

text \<open>
  C7. If every node of a tree satisfies \<open>0 \<le> w \<le> n\<close>, then so does every node
  after an iteration, in both variants: after \<open>iterate\<close> with either rollout, and
  after the loop body of \<open>concurrentIterate\<close> in the parallel-root variant. The
  average \<open>w / n\<close> of every node with \<open>n > 0\<close> then lies in \<open>[0, 1]\<close>, and no
  node's \<open>n\<close> is smaller after the iteration than before (\<open>visitsLeq\<close> compares the
  trees node by node).
\<close>

theorem mcts_reward_visits_invariant:
  assumes "rewardBounded nd"
  shows "(iterate v E N nd agentColor g = Some (r, nd', g') \<longrightarrow>
            rewardBounded nd' \<and> averageInUnit nd' \<and> visitsLeq nd nd') \<and>
         (concurrentStep readFirst E agentColor (N, nd, g) = Some (N2, nd2, g2) \<longrightarrow>
            rewardBounded nd2 \<and> averageInUnit nd2 \<and> visitsLeq nd nd2)"
  using iterate_preserves [OF _ assms, of v E N agentColor g r nd' g']
        concurrentStep_preserves [OF _ assms, of readFirst E agentColor N g N2 nd2 g2]
        rewardBounded_averageInUnit
  by blast

theorem mcts_reward_visits_invariant_witness:
  "\<exists>r nd' g' N2 nd2 g2.
     iterate SingleTree idleEngine 0 (Node 0 0 noMove queenUp []) White zeroDraws
       = Some (r, nd', g') \<and>
     rewardBounded nd' \<and> averageInUnit nd' \<and> visitsLeq (Node 0 0 noMove queenUp []) nd' \<and>
     concurrentStep False idleEngine White (0, Node 0 0 noMove queenUp [], zeroDraws)
       = Some (N2, nd2, g2) \<and>
     rewardBounded nd2 \<and> averageInUnit nd2 \<and> visitsLeq (Node 0 0 noMove queenUp []) nd2"
proof -
  let ?nd = "Node 0 0 noMove queenUp [] :: unit node"
  have h: "rewardBounded ?nd" by simp
  obtain r nd' g' where
    a: "iterate SingleTree idleEngine 0 ?nd White zeroDraws = Some (r, nd', g')"
    using iterate_total [OF idleEngine_consistent] by blast
  obtain r2 nd1 g2 where
    "iterate ParallelRoot idleEngine 0 ?nd White zeroDraws = Some (r2, nd1, g2)"
    using iterate_total [OF idleEngine_consistent] by blast
  then obtain N2 nd2 where
    b: "concurrentStep False idleEngine White (0, ?nd, zeroDraws) = Some (N2, nd2, g2)"
    by (simp add: concurrentStep_def)
  from mcts_reward_visits_invariant [OF h, of SingleTree idleEngine 0 White zeroDraws
        r nd' g' False N2 nd2 g2] a b
  show ?thesis by blast
qed

subsection \<open>The root of the single tree\<close>



subsection \<open>Visit accounting at a terminal child\<close>

lemma mateEngine_facts:
  "GenerateLegalMoves mateEngine mateInOne = [mateMove]"
  "\<not> IsCheckMate mateEngine mateInOne"
  "IsCheckMate mateEngine mated"
  "\<not> IsStaleMate mateEngine p"
  "PositionMove mateEngine p m = mated"
  "Turn mated = Black"
  "Turn mateInOne = White"
  by (simp_all add: mateEngine_def mateInOne_def mated_def)

lemma mate_rollout:
  "fst (randomRollout SingleTree mateEngine mateInOne White g) = 1"
  by (simp add: randomRollout_def randomRolloutLength_def numeral_eq_Suc mateEngine_facts
        Let_def IntN_def)

lemma mate_first:
  "iterate SingleTree mateEngine 0 (Node 0 0 noMove mateInOne []) White g =
     Some (1, Node 0 0 noMove mateInOne [Node 1 1 mateMove mated []],
           snd (randomRollout SingleTree mateEngine mateInOne White g))"
proof -
  have nt: "\<not> IsCheckMate mateEngine (pos (Node 0 0 noMove mateInOne []))"
    "\<not> IsStaleMate mateEngine (pos (Node 0 0 noMove mateInOne []))"
    by (simp_all add: mateEngine_facts)
  have e: "expanded mateEngine (Node 0 0 noMove mateInOne []) =
             Node 0 0 noMove mateInOne [Node 0 0 mateMove mated []]"
    by (simp add: expanded_def fillInChildren_def mateEngine_facts)
  show ?thesis
    unfolding iterate_inner [OF nt] e
    by (simp add: selectNode_def setChild_def backPropagate_def mate_rollout)
qed

lemma mate_again:
  assumes "n \<noteq> 0"
  shows "iterate SingleTree mateEngine N (Node 0 0 noMove mateInOne [Node w n mateMove mated []])
           White g =
         Some (1, Node 0 0 noMove mateInOne [Node (w + 2) (n + 2) mateMove mated []], g)"
proof -
  let ?root = "Node 0 0 noMove mateInOne [Node w n mateMove mated []]"
  have nt: "\<not> IsCheckMate mateEngine (pos ?root)" "\<not> IsStaleMate mateEngine (pos ?root)"
    by (simp_all add: mateEngine_facts)
  have e: "expanded mateEngine ?root = ?root" by (simp add: expanded_def)
  have s: "selectNode N ?root = Some 0" using assms by (simp add: selectNode_def Let_def)
  have w: "IsCheckMate mateEngine (pos (Node w n mateMove mated [])) \<and>
           Turn (pos (Node w n mateMove mated [])) \<noteq> White"
    by (simp add: mateEngine_facts)
  have c: "iterate SingleTree mateEngine N (Node w n mateMove mated []) White g =
             Some (1, Node (w + 1) (n + 1) mateMove mated [], g)"
    unfolding iterate_terminal_win [OF w] by simp
  show ?thesis
    unfolding iterate_inner [OF nt] e s
    using assms by (simp add: c setChild_def backPropagate_def)
qed

lemma mate_loop:
  "0 < n \<Longrightarrow>
   singleTreeLoop mateEngine White k
     (N, Node 0 0 noMove mateInOne [Node w n mateMove mated []], g) =
   Some (N + int k,
         Node 0 0 noMove mateInOne
           [Node (w + 2 * real k) (n + 2 * int k) mateMove mated []], g)"
proof (induction k arbitrary: N w n)
  case 0
  show ?case by simp
next
  case (Suc k)
  from Suc.prems have "n \<noteq> 0" by simp
  from mate_again [OF this, of N w g]
  have st: "singleTreeStep mateEngine White
              (N, Node 0 0 noMove mateInOne [Node w n mateMove mated []], g) =
            Some (N + 1, Node 0 0 noMove mateInOne [Node (w + 2) (n + 2) mateMove mated []], g)"
    by (simp add: singleTreeStep_def)
  from Suc.prems have "0 < n + 2" by simp
  from Suc.IH [OF this, of "N + 1" "w + 2"] st show ?case
    by (simp add: algebra_simps)
qed

text \<open>
  C3 at a root whose only move checkmates. The first iteration visits the child by
  a rollout (\<open>n = 1\<close>); every later one calls \<open>iterate\<close> on the child, which
  increments the child's \<open>n\<close> in its checkmate branch, and the back-propagation of
  the parent increments it again. After one batch of 100 iterations the root's
  only child has 199 visits; the root itself has none.
\<close>

theorem terminal_child_counted_twice:
  "map_option (\<lambda>(N, root, g). (N, nodeN root, map nodeN (children root)))
     (singleTreeSearch mateEngine 1 mateInOne zeroDraws)
   = Some (100, 0, [199])"
proof -
  let ?g = "snd (randomRollout SingleTree mateEngine mateInOne White zeroDraws)"
  have a: "singleTreeStep mateEngine White (0, Node 0 0 noMove mateInOne [], zeroDraws) =
             Some (1, Node 0 0 noMove mateInOne [Node 1 1 mateMove mated []], ?g)"
    by (simp add: singleTreeStep_def mate_first)
  have b: "singleTreeLoop mateEngine White 99
             (1, Node 0 0 noMove mateInOne [Node 1 1 mateMove mated []], ?g) =
           Some (100, Node 0 0 noMove mateInOne [Node 199 199 mateMove mated []], ?g)"
    using mate_loop [of 1 99 1 1 ?g] by simp
  have c: "singleTreeLoop mateEngine White (Suc 99)
             (0, Node 0 0 noMove mateInOne [], zeroDraws) =
           Some (100, Node 0 0 noMove mateInOne [Node 199 199 mateMove mated []], ?g)"
    unfolding singleTreeLoop.simps(2) a using b by simp
  have d: "iterationsBetweenTimeChecks * 1 = Suc 99"
    by (simp add: iterationsBetweenTimeChecks_def)
  show ?thesis
    unfolding singleTreeSearch_def d mateEngine_facts(7) c by simp
qed

subsection \<open>Exit codes of the harness\<close>

lemma someMove_noMove: "someMove \<noteq> noMove"
  by (simp add: someMove_def noMove_def NoSquare_def)

lemma parsePlayer_simps:
  "parsePlayer ''human'' k = Some Human"
  "parsePlayer ''MinMax'' k = Some (Minmax k)"
  "parsePlayer ''robot'' k = None"
  by (simp_all add: parsePlayer_def ToLower_def toLowerChar_def Let_def)

lemma countingGame_facts:
  "NewGame countingGame = 0"
  "\<not> GameIsCheckMate countingGame g"
  "GameCanClaimDraw countingGame g = (1 \<le> g)"
  "GameTurn countingGame 0 = White"
  "GameMove countingGame g noMove = None"
  "GameMove countingGame g someMove = Some (Suc g)"
  by (simp_all add: countingGame_def someMove_noMove)

text \<open>
  C9 as stated fails: a game ended by a claimed draw, a run ended by an invalid
  agent move and a run ended by an invalid configuration all exit with code 1.
\<close>

theorem exit_codes_shared_counterexample:
  "main countingGame scriptedGetMove (flagsOf ''human'' ''human'') = Some DrawClaimed \<and>
   main countingGame scriptedGetMove (flagsOf ''MinMax'' ''human'') = Some InvalidAgentMove \<and>
   main countingGame scriptedGetMove (flagsOf ''robot'' ''human'') = Some BadPlayer1 \<and>
   exitCode DrawClaimed = exitCode InvalidAgentMove \<and>
   exitCode DrawClaimed = exitCode BadPlayer1"
proof -
  have d: "gameLoop countingGame ag (Suc 0) = Some DrawClaimed" for ag
    by (subst gameLoop.simps) (simp add: countingGame_facts)
  have 1: "main countingGame scriptedGetMove (flagsOf ''human'' ''human'') = Some DrawClaimed"
    unfolding main_def parseArgs_def flagsOf_def
    apply (simp add: parsePlayer_simps)
    apply (subst gameLoop.simps)
    apply (simp add: countingGame_facts scriptedGetMove_def d)
    done
  have 2: "main countingGame scriptedGetMove (flagsOf ''MinMax'' ''human'') = Some InvalidAgentMove"
    unfolding main_def parseArgs_def flagsOf_def
    apply (simp add: parsePlayer_simps)
    apply (subst gameLoop.simps)
    apply (simp add: countingGame_facts scriptedGetMove_def)
    done
  have 3: "main countingGame scriptedGetMove (flagsOf ''robot'' ''human'') = Some BadPlayer1"
    unfolding main_def parseArgs_def flagsOf_def
    by (simp add: parsePlayer_simps)
  show ?thesis using 1 2 3 by simp
qed

lemma gameLoop_endings:
  assumes "gameLoop G agents game = Some e"
  shows "loopEnding e"
proof (rule gameLoop.raw_induct [where P = "\<lambda>G agents game e. loopEnding e", OF _ assms])
  fix loop :: "('a, 'b) Game \<Rightarrow> 'b agent \<times> 'b agent \<Rightarrow> 'a \<Rightarrow> ending option"
    and G agents game e
  assume IH: "\<And>G agents game e. loop G agents game = Some e \<Longrightarrow> loopEnding e"
    and eq: "(if \<not> GameIsCheckMate G game \<and> \<not> GameCanClaimDraw G game
      then if GameTurn G game = White \<or> GameTurn G game = Black
           then case (if GameTurn G game = White then fst agents
                      else snd agents)
                      (GamePosition G game) of
                None \<Rightarrow> Some NoHumanMove
                | Some move \<Rightarrow>
                    (case GameMove G game move of
                    None \<Rightarrow> Some InvalidAgentMove
                    | Some game' \<Rightarrow> loop G agents game')
           else Some TurnNotBlackOrWhite
      else if GameIsCheckMate G game
           then Some (CheckmateEnded (GameTurn G game))
           else if GameCanClaimDraw G game then Some DrawClaimed
                else Some NoOutcome) =
     Some e"
  from eq show "loopEnding e"
    by (auto simp: loopEnding_def split: if_splits option.splits dest: IH)
qed

text \<open>
  C9, amended. The loop of the harness ends at a checkmate and at a claimable draw.
  The process exits with code 0 when the game ended by checkmate (and after
  \<^verbatim>\<open>-help\<close>) and with code 1 in every other case in which main.go ends the
  run: a claimed draw, an invalid agent move, an unknown agent name in
  \<^verbatim>\<open>-p1\<close> or \<^verbatim>\<open>-p2\<close>; the draw and the failures share code 1. The final
  \<^verbatim>\<open>os.Exit(1)\<close> after the two tests is never reached.
\<close>

theorem harness_exit_codes:
  "(GameIsCheckMate G game \<longrightarrow>
      gameLoop G agents game = Some (CheckmateEnded (GameTurn G game))) \<and>
   (\<not> GameIsCheckMate G game \<and> GameCanClaimDraw G game \<longrightarrow>
      gameLoop G agents game = Some DrawClaimed) \<and>
   (main G GetMove f = Some e \<longrightarrow>
      exitCode e = (if (\<exists>c. e = CheckmateEnded c) \<or> e = HelpPrinted then 0 else 1) \<and>
      e \<noteq> NoOutcome)"
proof (intro conjI impI)
  assume "GameIsCheckMate G game"
  then show "gameLoop G agents game = Some (CheckmateEnded (GameTurn G game))"
    by (subst gameLoop.simps) simp
next
  assume "\<not> GameIsCheckMate G game \<and> GameCanClaimDraw G game"
  then show "gameLoop G agents game = Some DrawClaimed"
    by (subst gameLoop.simps) simp
next
  assume "main G GetMove f = Some e"
  show "exitCode e = (if (\<exists>c. e = CheckmateEnded c) \<or> e = HelpPrinted then 0 else 1)"
    by (cases e) simp_all
next
  assume m: "main G GetMove f = Some e"
  show "e \<noteq> NoOutcome"
  proof (cases "parseArgs f")
    case (Inl e')
    with m have "e = e'" by (simp add: main_def)
    with Inl show ?thesis
      by (auto simp: parseArgs_def split: if_splits option.splits)
  next
    case (Inr ag)
    with m have "gameLoop G (GetMove (fst ag), GetMove (snd ag)) (NewGame G) = Some e"
      by (simp add: main_def)
    from gameLoop_endings [OF this] show ?thesis by (auto simp: loopEnding_def)
  qed
qed

lemma matingGame_facts:
  "NewGame matingGame = 0"
  "GameIsCheckMate matingGame g = (1 \<le> g)"
  "GameCanClaimDraw matingGame g = (1 \<le> g)"
  "GameTurn matingGame 0 = White"
  "GameTurn matingGame (Suc 0) = Black"
  "GameMove matingGame g someMove = Some (Suc g)"
  by (simp_all add: matingGame_def countingGame_def someMove_noMove)

theorem harness_exit_codes_witness:
  "main matingGame scriptedGetMove (flagsOf ''human'' ''human'') = Some (CheckmateEnded Black) \<and>
   exitCode (CheckmateEnded Black) = 0 \<and>
   gameLoop countingGame (scriptedGetMove Human, scriptedGetMove Human) (Suc 0)
     = Some DrawClaimed \<and>
   exitCode DrawClaimed = 1"
proof -
  let ?ag = "(scriptedGetMove Human, scriptedGetMove Human)"
  have c: "GameIsCheckMate matingGame (Suc 0)" by (simp add: matingGame_facts)
  have 1: "gameLoop matingGame ag (Suc 0) = Some (CheckmateEnded Black)" for ag
    using harness_exit_codes [of matingGame "Suc 0" ag] c by (simp add: matingGame_facts)
  have m: "main matingGame scriptedGetMove (flagsOf ''human'' ''human'')
             = Some (CheckmateEnded Black)"
    unfolding main_def parseArgs_def flagsOf_def
    apply (simp add: parsePlayer_simps)
    apply (subst gameLoop.simps)
    apply (simp add: matingGame_facts scriptedGetMove_def 1)
    done
  have d: "\<not> GameIsCheckMate countingGame (Suc 0) \<and> GameCanClaimDraw countingGame (Suc 0)"
    by (simp add: countingGame_facts)
  from harness_exit_codes [of countingGame "Suc 0" ?ag] d
  have 2: "gameLoop countingGame ?ag (Suc 0) = Some DrawClaimed" by blast
  from harness_exit_codes [of matingGame _ _ scriptedGetMove "flagsOf ''human'' ''human''"
         "CheckmateEnded Black"] m
  have 3: "exitCode (CheckmateEnded Black) = 0" by simp
  show ?thesis using m 2 3 by simp
qed

subsection \<open>Alpha-beta against minimax\<close>

lemma MaxFloat64_pos: "0 < MaxFloat64"
  by (simp add: MaxFloat64_def)

lemma maxLeafLoop_mm_Cons:
  "maxLeafLoop_mm E p (m # ms) bm h =
     maxLeafLoop_mm E p ms
       (if fst (evaluate E (PositionMove E p m)) > h then m else bm)
       (max h (fst (evaluate E (PositionMove E p m))))"
  by (simp add: Let_def max_def)

lemma minLeafLoop_mm_Cons:
  "minLeafLoop_mm E p (m # ms) bm l =
     minLeafLoop_mm E p ms
       (if fst (evaluate E (PositionMove E p m)) < l then m else bm)
       (min l (fst (evaluate E (PositionMove E p m))))"
  by (simp add: Let_def min_def)

lemma maxLoop_mm_Cons:
  "maxLoop_mm s E p depth (m # ms) bm h =
     (if IsCheckMate E (PositionMove E p m) then (m, MaxFloat64)
      else if IsStaleMate E (PositionMove E p m) \<and> h < 0 then maxLoop_mm s E p depth ms m 0
      else maxLoop_mm s E p depth ms
             (if snd (s (PositionMove E p m) (depth - 1)) > h then m else bm)
             (max h (snd (s (PositionMove E p m) (depth - 1)))))"
  by (simp add: Let_def max_def)

lemma minLoop_mm_Cons:
  "minLoop_mm s E p depth (m # ms) bm l =
     (if IsCheckMate E (PositionMove E p m) then (m, - MaxFloat64)
      else if IsStaleMate E (PositionMove E p m) \<and> l > 0 then minLoop_mm s E p depth ms m 0
      else minLoop_mm s E p depth ms
             (if snd (s (PositionMove E p m) (depth - 1)) < l then m else bm)
             (min l (snd (s (PositionMove E p m) (depth - 1)))))"
  by (simp add: Let_def min_def)

lemma maxLeafLoop_ab_Cons:
  "maxLeafLoop_ab E p (m # ms) bm h beta =
     (if max h (fst (evaluate E (PositionMove E p m))) > beta then
        (if fst (evaluate E (PositionMove E p m)) > h then m else bm,
         max h (fst (evaluate E (PositionMove E p m))))
      else maxLeafLoop_ab E p ms
             (if fst (evaluate E (PositionMove E p m)) > h then m else bm)
             (max h (fst (evaluate E (PositionMove E p m)))) beta)"
  by (simp add: Let_def max_def)

lemma minLeafLoop_ab_Cons:
  "minLeafLoop_ab E p (m # ms) bm l alpha =
     (if min l (fst (evaluate E (PositionMove E p m))) < alpha then
        (if fst (evaluate E (PositionMove E p m)) < l then m else bm,
         min l (fst (evaluate E (PositionMove E p m))))
      else minLeafLoop_ab E p ms
             (if fst (evaluate E (PositionMove E p m)) < l then m else bm)
             (min l (fst (evaluate E (PositionMove E p m)))) alpha)"
  by (simp add: Let_def min_def)

lemma maxLoop_ab_Cons:
  "maxLoop_ab s E p depth (m # ms) bm h alpha beta =
     (if IsCheckMate E (PositionMove E p m) then (m, MaxFloat64)
      else if IsStaleMate E (PositionMove E p m) \<and> h < 0 then
        maxLoop_ab s E p depth ms m 0 alpha beta
      else if max h (snd (s (PositionMove E p m) (depth - 1) alpha beta)) > beta then
        (if snd (s (PositionMove E p m) (depth - 1) alpha beta) > h then m else bm,
         max h (snd (s (PositionMove E p m) (depth - 1) alpha beta)))
      else maxLoop_ab s E p depth ms
             (if snd (s (PositionMove E p m) (depth - 1) alpha beta) > h then m else bm)
             (max h (snd (s (PositionMove E p m) (depth - 1) alpha beta)))
             (max alpha (max h (snd (s (PositionMove E p m) (depth - 1) alpha beta)))) beta)"
  by (simp add: Let_def max_def)

lemma minLoop_ab_Cons:
  "minLoop_ab s E p depth (m # ms) bm l alpha beta =
     (if IsCheckMate E (PositionMove E p m) then (m, - MaxFloat64)
      else if IsStaleMate E (PositionMove E p m) \<and> l > 0 then
        minLoop_ab s E p depth ms m 0 alpha beta
      else if min l (snd (s (PositionMove E p m) (depth - 1) alpha beta)) < alpha then
        (if snd (s (PositionMove E p m) (depth - 1) alpha beta) < l then m else bm,
         min l (snd (s (PositionMove E p m) (depth - 1) alpha beta)))
      else minLoop_ab s E p depth ms
             (if snd (s (PositionMove E p m) (depth - 1) alpha beta) < l then m else bm)
             (min l (snd (s (PositionMove E p m) (depth - 1) alpha beta)))
             alpha (min beta (min l (snd (s (PositionMove E p m) (depth - 1) alpha beta)))))"
  by (simp add: Let_def min_def)


lemma maxLeafLoop_mm_bounds:
  "h \<le> MaxFloat64 \<Longrightarrow>
   \<forall>m \<in> set ms. fst (evaluate E (PositionMove E p m)) \<le> MaxFloat64 \<Longrightarrow>
     h \<le> snd (maxLeafLoop_mm E p ms bm h) \<and> snd (maxLeafLoop_mm E p ms bm h) \<le> MaxFloat64"
proof (induction ms arbitrary: bm h)
  case Nil
  then show ?case by simp
next
  case (Cons m ms)
  let ?e = "fst (evaluate E (PositionMove E p m))"
  from Cons.prems have "max h ?e \<le> MaxFloat64" by simp
  moreover from Cons.prems
  have "\<forall>m \<in> set ms. fst (evaluate E (PositionMove E p m)) \<le> MaxFloat64" by simp
  ultimately have
    "max h ?e \<le> snd (maxLeafLoop_mm E p ms (if ?e > h then m else bm) (max h ?e)) \<and>
     snd (maxLeafLoop_mm E p ms (if ?e > h then m else bm) (max h ?e)) \<le> MaxFloat64"
    by (rule Cons.IH)
  then show ?case unfolding maxLeafLoop_mm_Cons by linarith
qed

lemma minLeafLoop_mm_bounds:
  "- MaxFloat64 \<le> l \<Longrightarrow>
   \<forall>m \<in> set ms. - MaxFloat64 \<le> fst (evaluate E (PositionMove E p m)) \<Longrightarrow>
     snd (minLeafLoop_mm E p ms bm l) \<le> l \<and> - MaxFloat64 \<le> snd (minLeafLoop_mm E p ms bm l)"
proof (induction ms arbitrary: bm l)
  case Nil
  then show ?case by simp
next
  case (Cons m ms)
  let ?e = "fst (evaluate E (PositionMove E p m))"
  from Cons.prems have "- MaxFloat64 \<le> min l ?e" by simp
  moreover from Cons.prems
  have "\<forall>m \<in> set ms. - MaxFloat64 \<le> fst (evaluate E (PositionMove E p m))" by simp
  ultimately have
    "snd (minLeafLoop_mm E p ms (if ?e < l then m else bm) (min l ?e)) \<le> min l ?e \<and>
     - MaxFloat64 \<le> snd (minLeafLoop_mm E p ms (if ?e < l then m else bm) (min l ?e))"
    by (rule Cons.IH)
  then show ?case unfolding minLeafLoop_mm_Cons by linarith
qed

lemma maxLoop_mm_bounds:
  "h \<le> MaxFloat64 \<Longrightarrow>
   \<forall>m \<in> set ms. snd (s (PositionMove E p m) (depth - 1)) \<le> MaxFloat64 \<Longrightarrow>
     h \<le> snd (maxLoop_mm s E p depth ms bm h) \<and>
     snd (maxLoop_mm s E p depth ms bm h) \<le> MaxFloat64"
proof (induction ms arbitrary: bm h)
  case Nil
  then show ?case by simp
next
  case (Cons m ms)
  let ?q = "PositionMove E p m"
  let ?v = "snd (s ?q (depth - 1))"
  from Cons.prems
  have rest: "\<forall>m \<in> set ms. snd (s (PositionMove E p m) (depth - 1)) \<le> MaxFloat64"
    and v: "?v \<le> MaxFloat64" by simp_all
  have z: "(0::real) \<le> MaxFloat64" using MaxFloat64_pos by simp
  note stale = Cons.IH [OF z rest, of m]
  from Cons.prems(1) v have "max h ?v \<le> MaxFloat64" by simp
  note other = Cons.IH [OF this rest, of "if ?v > h then m else bm"]
  show ?case
    unfolding maxLoop_mm_Cons using Cons.prems(1) stale other
    by (auto simp del: maxLoop_mm.simps)
qed

lemma minLoop_mm_bounds:
  "- MaxFloat64 \<le> l \<Longrightarrow>
   \<forall>m \<in> set ms. - MaxFloat64 \<le> snd (s (PositionMove E p m) (depth - 1)) \<Longrightarrow>
     snd (minLoop_mm s E p depth ms bm l) \<le> l \<and>
     - MaxFloat64 \<le> snd (minLoop_mm s E p depth ms bm l)"
proof (induction ms arbitrary: bm l)
  case Nil
  then show ?case by simp
next
  case (Cons m ms)
  let ?q = "PositionMove E p m"
  let ?v = "snd (s ?q (depth - 1))"
  from Cons.prems
  have rest: "\<forall>m \<in> set ms. - MaxFloat64 \<le> snd (s (PositionMove E p m) (depth - 1))"
    and v: "- MaxFloat64 \<le> ?v" by simp_all
  have z: "- MaxFloat64 \<le> (0::real)" using MaxFloat64_pos by simp
  note stale = Cons.IH [OF z rest, of m]
  from Cons.prems(1) v have "- MaxFloat64 \<le> min l ?v" by simp
  note other = Cons.IH [OF this rest, of "if ?v < l then m else bm"]
  show ?case
    unfolding minLoop_mm_Cons using Cons.prems(1) stale other
    by (auto simp del: minLoop_mm.simps)
qed

lemma search_mm_bounds:
  "finiteScores E p d \<Longrightarrow>
     - MaxFloat64 \<le> snd (search_mm E p d) \<and> snd (search_mm E p d) \<le> MaxFloat64"
proof (induction d arbitrary: p)
  case 0
  from "0.prems" have
    hi: "\<forall>m \<in> set (GenerateLegalMoves E p). fst (evaluate E (PositionMove E p m)) \<le> MaxFloat64"
    and lo: "\<forall>m \<in> set (GenerateLegalMoves E p). - MaxFloat64 \<le> fst (evaluate E (PositionMove E p m))"
    by (auto simp: abs_le_iff)
  have m: "- MaxFloat64 \<le> MaxFloat64" using MaxFloat64_pos by simp
  from maxLeafLoop_mm_bounds [OF m hi, of noMove] minLeafLoop_mm_bounds [OF m lo, of noMove]
    MaxFloat64_pos
  show ?case
    by (subst (1 2) search_mm.simps) (simp add: max_mm_def min_mm_def)
next
  case (Suc d)
  from Suc.prems Suc.IH have
    hi: "\<forall>m \<in> set (GenerateLegalMoves E p).
           snd (search_mm E (PositionMove E p m) (Suc d - 1)) \<le> MaxFloat64"
    and lo: "\<forall>m \<in> set (GenerateLegalMoves E p).
           - MaxFloat64 \<le> snd (search_mm E (PositionMove E p m) (Suc d - 1))"
    by auto
  have m: "- MaxFloat64 \<le> MaxFloat64" using MaxFloat64_pos by simp
  from maxLoop_mm_bounds [where s = "search_mm E", OF m hi, of noMove]
    minLoop_mm_bounds [where s = "search_mm E", OF m lo, of noMove]
    MaxFloat64_pos
  show ?case
    by (subst (1 2) search_mm.simps) (simp add: max_mm_def min_mm_def)
qed

lemma agrees_same: "agrees v v a b"
  by (simp add: agrees_def)

lemma maxLeafLoop_mm_mono: "h \<le> snd (maxLeafLoop_mm E p ms bm h)"
proof (induction ms arbitrary: bm h)
  case Nil
  show ?case by simp
next
  case (Cons m ms)
  let ?e = "fst (evaluate E (PositionMove E p m))"
  have "max h ?e \<le> snd (maxLeafLoop_mm E p ms (if ?e > h then m else bm) (max h ?e))"
    by (rule Cons.IH)
  then show ?case unfolding maxLeafLoop_mm_Cons by linarith
qed

lemma maxLeaf_agrees:
  assumes "alpha0 \<le> beta"
  shows "h \<le> beta \<Longrightarrow>
     agrees (snd (maxLeafLoop_mm E p ms bm h)) (snd (maxLeafLoop_ab E p ms bm' h beta))
       alpha0 beta"
proof (induction ms arbitrary: bm bm' h)
  case Nil
  show ?case by (simp add: agrees_same)
next
  case (Cons m ms)
  let ?e = "fst (evaluate E (PositionMove E p m))"
  let ?b = "if ?e > h then m else bm" and ?b' = "if ?e > h then m else bm'"
  let ?V = "snd (maxLeafLoop_mm E p ms ?b (max h ?e))"
  have mm: "snd (maxLeafLoop_mm E p (m # ms) bm h) = ?V"
    by (simp only: maxLeafLoop_mm_Cons)
  show ?case
  proof (cases "max h ?e > beta")
    case True
    then have ab: "snd (maxLeafLoop_ab E p (m # ms) bm' h beta) = max h ?e"
      by (simp only: maxLeafLoop_ab_Cons if_True snd_conv)
    have "max h ?e \<le> ?V" by (rule maxLeafLoop_mm_mono)
    with True assms show ?thesis unfolding mm ab agrees_def by linarith
  next
    case False
    then have ab: "snd (maxLeafLoop_ab E p (m # ms) bm' h beta) =
                   snd (maxLeafLoop_ab E p ms ?b' (max h ?e) beta)"
      by (simp only: maxLeafLoop_ab_Cons if_False)
    from False have "max h ?e \<le> beta" by linarith
    from Cons.IH [OF this, of ?b ?b'] show ?thesis unfolding mm ab .
  qed
qed

lemma maxLoop_agrees:
  assumes nost: "\<forall>m \<in> set ms. \<not> IsStaleMate E (PositionMove E p m)"
    and child: "\<forall>m \<in> set ms. \<forall>a b. - MaxFloat64 \<le> a \<and> a \<le> b \<and> b \<le> MaxFloat64 \<longrightarrow>
                  agrees (snd (smm (PositionMove E p m) (depth - 1)))
                         (snd (sab (PositionMove E p m) (depth - 1) a b)) a b"
    and bound: "\<forall>m \<in> set ms. snd (smm (PositionMove E p m) (depth - 1)) \<le> MaxFloat64"
    and window: "- MaxFloat64 \<le> alpha0" "alpha0 \<le> beta" "beta \<le> MaxFloat64"
    and inv: "H \<le> beta" "H = h \<or> (h < alpha0 \<and> H < alpha0)" "alpha0 \<le> alpha"
      "alpha \<le> H \<or> alpha = alpha0" "h \<le> MaxFloat64"
  shows "agrees (snd (maxLoop_mm smm E p depth ms bm h))
                (snd (maxLoop_ab sab E p depth ms bm' H alpha beta)) alpha0 beta"
  using nost child bound inv
proof (induction ms arbitrary: bm bm' h H alpha)
  case Nil
  then show ?case using window by (auto simp: agrees_def)
next
  case (Cons m ms)
  let ?q = "PositionMove E p m"
  let ?v = "snd (smm ?q (depth - 1))"
  let ?r = "snd (sab ?q (depth - 1) alpha beta)"
  let ?b = "if ?v > h then m else bm" and ?b' = "if ?r > H then m else bm'"
  from Cons.prems(1) have ns: "\<not> IsStaleMate E ?q"
    and nost': "\<forall>m \<in> set ms. \<not> IsStaleMate E (PositionMove E p m)" by simp_all
  from Cons.prems(2) have
    child': "\<forall>m \<in> set ms. \<forall>a b. - MaxFloat64 \<le> a \<and> a \<le> b \<and> b \<le> MaxFloat64 \<longrightarrow>
                  agrees (snd (smm (PositionMove E p m) (depth - 1)))
                         (snd (sab (PositionMove E p m) (depth - 1) a b)) a b" by simp
  from Cons.prems(3) have vM: "?v \<le> MaxFloat64"
    and bound': "\<forall>m \<in> set ms. snd (smm (PositionMove E p m) (depth - 1)) \<le> MaxFloat64"
    by simp_all
  note inv = Cons.prems(4-8)
  from inv window have w: "- MaxFloat64 \<le> alpha \<and> alpha \<le> beta \<and> beta \<le> MaxFloat64"
    by linarith
  with Cons.prems(2) have ag: "agrees ?v ?r alpha beta" by simp
  show ?case
  proof (cases "IsCheckMate E ?q")
    case True
    then show ?thesis
      by (simp only: maxLoop_mm_Cons maxLoop_ab_Cons if_True snd_conv agrees_same)
  next
    case nc: False
    have mm: "snd (maxLoop_mm smm E p depth (m # ms) bm h) =
              snd (maxLoop_mm smm E p depth ms ?b (max h ?v))"
      using nc ns by (simp only: maxLoop_mm_Cons if_False simp_thms)
    from inv(5) vM have hM: "max h ?v \<le> MaxFloat64" by linarith
    show ?thesis
    proof (cases "max H ?r > beta")
      case True
      with nc ns have ab: "snd (maxLoop_ab sab E p depth (m # ms) bm' H alpha beta) = max H ?r"
        by (simp only: maxLoop_ab_Cons if_False if_True simp_thms snd_conv)
      from maxLoop_mm_bounds [where s = smm, OF hM bound', of ?b]
      have "max h ?v \<le> snd (maxLoop_mm smm E p depth ms ?b (max h ?v))" by (rule conjunct1)
      moreover from True inv(1) ag w have "beta < ?v" unfolding agrees_def by linarith
      ultimately show ?thesis using True window unfolding mm ab agrees_def by linarith
    next
      case False
      with nc ns have ab: "snd (maxLoop_ab sab E p depth (m # ms) bm' H alpha beta) =
          snd (maxLoop_ab sab E p depth ms ?b' (max H ?r) (max alpha (max H ?r)) beta)"
        by (simp only: maxLoop_ab_Cons if_False simp_thms)
      from False have 1: "max H ?r \<le> beta" by linarith
      from False inv ag w have 2: "max H ?r = max h ?v \<or> (max h ?v < alpha0 \<and> max H ?r < alpha0)"
        unfolding agrees_def by linarith
      from inv have 3: "alpha0 \<le> max alpha (max H ?r)" by linarith
      from inv have 4: "max alpha (max H ?r) \<le> max H ?r \<or> max alpha (max H ?r) = alpha0"
        by linarith
      from Cons.IH [OF nost' child' bound' 1 2 3 4 hM, of ?b ?b']
      show ?thesis unfolding mm ab .
    qed
  qed
qed


lemma minLeafLoop_mm_mono: "snd (minLeafLoop_mm E p ms bm l) \<le> l"
proof (induction ms arbitrary: bm l)
  case Nil
  show ?case by simp
next
  case (Cons m ms)
  let ?e = "fst (evaluate E (PositionMove E p m))"
  have "snd (minLeafLoop_mm E p ms (if ?e < l then m else bm) (min l ?e)) \<le> min l ?e"
    by (rule Cons.IH)
  then show ?case unfolding minLeafLoop_mm_Cons by linarith
qed

lemma minLeaf_agrees:
  assumes "alpha \<le> beta0"
  shows "alpha \<le> l \<Longrightarrow>
     agrees (snd (minLeafLoop_mm E p ms bm l)) (snd (minLeafLoop_ab E p ms bm' l alpha))
       alpha beta0"
proof (induction ms arbitrary: bm bm' l)
  case Nil
  show ?case by (simp add: agrees_same)
next
  case (Cons m ms)
  let ?e = "fst (evaluate E (PositionMove E p m))"
  let ?b = "if ?e < l then m else bm" and ?b' = "if ?e < l then m else bm'"
  let ?V = "snd (minLeafLoop_mm E p ms ?b (min l ?e))"
  have mm: "snd (minLeafLoop_mm E p (m # ms) bm l) = ?V"
    by (simp only: minLeafLoop_mm_Cons)
  show ?case
  proof (cases "min l ?e < alpha")
    case True
    then have ab: "snd (minLeafLoop_ab E p (m # ms) bm' l alpha) = min l ?e"
      by (simp only: minLeafLoop_ab_Cons if_True snd_conv)
    have "?V \<le> min l ?e" by (rule minLeafLoop_mm_mono)
    with True assms show ?thesis unfolding mm ab agrees_def by linarith
  next
    case False
    then have ab: "snd (minLeafLoop_ab E p (m # ms) bm' l alpha) =
                   snd (minLeafLoop_ab E p ms ?b' (min l ?e) alpha)"
      by (simp only: minLeafLoop_ab_Cons if_False)
    from False have "alpha \<le> min l ?e" by linarith
    from Cons.IH [OF this, of ?b ?b'] show ?thesis unfolding mm ab .
  qed
qed

lemma minLoop_agrees:
  assumes nost: "\<forall>m \<in> set ms. \<not> IsStaleMate E (PositionMove E p m)"
    and child: "\<forall>m \<in> set ms. \<forall>a b. - MaxFloat64 \<le> a \<and> a \<le> b \<and> b \<le> MaxFloat64 \<longrightarrow>
                  agrees (snd (smm (PositionMove E p m) (depth - 1)))
                         (snd (sab (PositionMove E p m) (depth - 1) a b)) a b"
    and bound: "\<forall>m \<in> set ms. - MaxFloat64 \<le> snd (smm (PositionMove E p m) (depth - 1))"
    and window: "- MaxFloat64 \<le> alpha" "alpha \<le> beta0" "beta0 \<le> MaxFloat64"
    and inv: "alpha \<le> L" "L = l \<or> (beta0 < l \<and> beta0 < L)" "beta \<le> beta0"
      "L \<le> beta \<or> beta = beta0" "- MaxFloat64 \<le> l"
  shows "agrees (snd (minLoop_mm smm E p depth ms bm l))
                (snd (minLoop_ab sab E p depth ms bm' L alpha beta)) alpha beta0"
  using nost child bound inv
proof (induction ms arbitrary: bm bm' l L beta)
  case Nil
  then show ?case using window by (auto simp: agrees_def)
next
  case (Cons m ms)
  let ?q = "PositionMove E p m"
  let ?v = "snd (smm ?q (depth - 1))"
  let ?r = "snd (sab ?q (depth - 1) alpha beta)"
  let ?b = "if ?v < l then m else bm" and ?b' = "if ?r < L then m else bm'"
  from Cons.prems(1) have ns: "\<not> IsStaleMate E ?q"
    and nost': "\<forall>m \<in> set ms. \<not> IsStaleMate E (PositionMove E p m)" by simp_all
  from Cons.prems(2) have
    child': "\<forall>m \<in> set ms. \<forall>a b. - MaxFloat64 \<le> a \<and> a \<le> b \<and> b \<le> MaxFloat64 \<longrightarrow>
                  agrees (snd (smm (PositionMove E p m) (depth - 1)))
                         (snd (sab (PositionMove E p m) (depth - 1) a b)) a b" by simp
  from Cons.prems(3) have vM: "- MaxFloat64 \<le> ?v"
    and bound': "\<forall>m \<in> set ms. - MaxFloat64 \<le> snd (smm (PositionMove E p m) (depth - 1))"
    by simp_all
  note inv = Cons.prems(4-8)
  from inv window have w: "- MaxFloat64 \<le> alpha \<and> alpha \<le> beta \<and> beta \<le> MaxFloat64"
    by linarith
  with Cons.prems(2) have ag: "agrees ?v ?r alpha beta" by simp
  show ?case
  proof (cases "IsCheckMate E ?q")
    case True
    then show ?thesis
      by (simp only: minLoop_mm_Cons minLoop_ab_Cons if_True snd_conv agrees_same)
  next
    case nc: False
    have mm: "snd (minLoop_mm smm E p depth (m # ms) bm l) =
              snd (minLoop_mm smm E p depth ms ?b (min l ?v))"
      using nc ns by (simp only: minLoop_mm_Cons if_False simp_thms)
    from inv(5) vM have lM: "- MaxFloat64 \<le> min l ?v" by linarith
    show ?thesis
    proof (cases "min L ?r < alpha")
      case True
      with nc ns have ab: "snd (minLoop_ab sab E p depth (m # ms) bm' L alpha beta) = min L ?r"
        by (simp only: minLoop_ab_Cons if_False if_True simp_thms snd_conv)
      from minLoop_mm_bounds [where s = smm, OF lM bound', of ?b]
      have "snd (minLoop_mm smm E p depth ms ?b (min l ?v)) \<le> min l ?v" by (rule conjunct1)
      moreover from True inv(1) ag w have "?v < alpha" unfolding agrees_def by linarith
      ultimately show ?thesis using True window unfolding mm ab agrees_def by linarith
    next
      case False
      with nc ns have ab: "snd (minLoop_ab sab E p depth (m # ms) bm' L alpha beta) =
          snd (minLoop_ab sab E p depth ms ?b' (min L ?r) alpha (min beta (min L ?r)))"
        by (simp only: minLoop_ab_Cons if_False simp_thms)
      from False have 1: "alpha \<le> min L ?r" by linarith
      from False inv ag w have 2: "min L ?r = min l ?v \<or> (beta0 < min l ?v \<and> beta0 < min L ?r)"
        unfolding agrees_def by linarith
      from inv have 3: "min beta (min L ?r) \<le> beta0" by linarith
      from inv have 4: "min L ?r \<le> min beta (min L ?r) \<or> min beta (min L ?r) = beta0"
        by linarith
      from Cons.IH [OF nost' child' bound' 1 2 3 4 lM, of ?b ?b']
      show ?thesis unfolding mm ab .
    qed
  qed
qed

lemma search_agrees:
  "noStalemate E p d \<Longrightarrow> finiteScores E p d \<Longrightarrow>
   - MaxFloat64 \<le> a \<Longrightarrow> a \<le> b \<Longrightarrow> b \<le> MaxFloat64 \<Longrightarrow>
     agrees (snd (search_mm E p d)) (snd (search_ab E p d a b)) a b"
proof (induction d arbitrary: p a b)
  case 0
  have 1: "- MaxFloat64 \<le> b" using "0.prems" by linarith
  have 2: "a \<le> MaxFloat64" using "0.prems" by linarith
  show ?case
    using maxLeaf_agrees [OF "0.prems"(4) 1, of E p "GenerateLegalMoves E p" noMove noMove]
          minLeaf_agrees [OF "0.prems"(4) 2, of E p "GenerateLegalMoves E p" noMove noMove]
    by (subst search_mm.simps, subst search_ab.simps)
       (simp add: max_mm_def min_mm_def max_ab_def min_ab_def agrees_same)
next
  case (Suc d)
  let ?ms = "GenerateLegalMoves E p"
  from Suc.prems(1) have nost: "\<forall>m \<in> set ?ms. \<not> IsStaleMate E (PositionMove E p m)"
    and ns: "\<forall>m \<in> set ?ms. noStalemate E (PositionMove E p m) d" by simp_all
  from Suc.prems(2) have fs: "\<forall>m \<in> set ?ms. finiteScores E (PositionMove E p m) d" by simp
  have child: "\<forall>m \<in> set ?ms. \<forall>a b. - MaxFloat64 \<le> a \<and> a \<le> b \<and> b \<le> MaxFloat64 \<longrightarrow>
                  agrees (snd (search_mm E (PositionMove E p m) (Suc d - 1)))
                         (snd (search_ab E (PositionMove E p m) (Suc d - 1) a b)) a b"
    using ns fs Suc.IH by simp
  have hi: "\<forall>m \<in> set ?ms. snd (search_mm E (PositionMove E p m) (Suc d - 1)) \<le> MaxFloat64"
    and lo: "\<forall>m \<in> set ?ms. - MaxFloat64 \<le> snd (search_mm E (PositionMove E p m) (Suc d - 1))"
    using fs search_mm_bounds [of E _ d] by auto
  have mM: "- MaxFloat64 \<le> MaxFloat64" using MaxFloat64_pos by simp
  have lb: "- MaxFloat64 \<le> b" and ua: "a \<le> MaxFloat64" using Suc.prems(3-5) by linarith+
  have mx: "agrees (snd (maxLoop_mm (search_mm E) E p (Suc d) ?ms noMove (- MaxFloat64)))
                   (snd (maxLoop_ab (search_ab E) E p (Suc d) ?ms noMove (- MaxFloat64) a b)) a b"
    by (rule maxLoop_agrees [where smm = "search_mm E" and sab = "search_ab E"
          and depth = "Suc d", OF nost child hi Suc.prems(3-5) lb _ _ _ mM]) simp_all
  have mn: "agrees (snd (minLoop_mm (search_mm E) E p (Suc d) ?ms noMove MaxFloat64))
                   (snd (minLoop_ab (search_ab E) E p (Suc d) ?ms noMove MaxFloat64 a b)) a b"
    by (rule minLoop_agrees [where smm = "search_mm E" and sab = "search_ab E"
          and depth = "Suc d", OF nost child lo Suc.prems(3-5) ua _ _ _ mM]) simp_all
  show ?case
    using mx mn
    by (subst search_mm.simps, subst search_ab.simps)
       (simp add: max_mm_def min_mm_def max_ab_def min_ab_def agrees_same)
qed

lemma maxLeaf_exact:
  "h \<le> MaxFloat64 \<Longrightarrow>
   \<forall>m \<in> set ms. fst (evaluate E (PositionMove E p m)) \<le> MaxFloat64 \<Longrightarrow>
     maxLeafLoop_ab E p ms bm h MaxFloat64 = maxLeafLoop_mm E p ms bm h"
proof (induction ms arbitrary: bm h)
  case Nil
  show ?case by simp
next
  case (Cons m ms)
  let ?e = "fst (evaluate E (PositionMove E p m))"
  from Cons.prems have 1: "max h ?e \<le> MaxFloat64"
    and 2: "\<forall>m \<in> set ms. fst (evaluate E (PositionMove E p m)) \<le> MaxFloat64" by simp_all
  from 1 have nb: "\<not> max h ?e > MaxFloat64" by linarith
  show ?case
    unfolding maxLeafLoop_mm_Cons maxLeafLoop_ab_Cons
    using nb Cons.IH [OF 1 2] by (simp only: if_False)
qed

lemma minLeaf_exact:
  "- MaxFloat64 \<le> l \<Longrightarrow>
   \<forall>m \<in> set ms. - MaxFloat64 \<le> fst (evaluate E (PositionMove E p m)) \<Longrightarrow>
     minLeafLoop_ab E p ms bm l (- MaxFloat64) = minLeafLoop_mm E p ms bm l"
proof (induction ms arbitrary: bm l)
  case Nil
  show ?case by simp
next
  case (Cons m ms)
  let ?e = "fst (evaluate E (PositionMove E p m))"
  from Cons.prems have 1: "- MaxFloat64 \<le> min l ?e"
    and 2: "\<forall>m \<in> set ms. - MaxFloat64 \<le> fst (evaluate E (PositionMove E p m))" by simp_all
  from 1 have nb: "\<not> min l ?e < - MaxFloat64" by linarith
  show ?case
    unfolding minLeafLoop_mm_Cons minLeafLoop_ab_Cons
    using nb Cons.IH [OF 1 2] by (simp only: if_False)
qed

lemma maxLoop_exact:
  assumes child: "\<forall>m \<in> set ms. \<forall>a. - MaxFloat64 \<le> a \<and> a \<le> MaxFloat64 \<longrightarrow>
                  agrees (snd (smm (PositionMove E p m) (depth - 1)))
                         (snd (sab (PositionMove E p m) (depth - 1) a MaxFloat64)) a MaxFloat64"
    and bound: "\<forall>m \<in> set ms. snd (smm (PositionMove E p m) (depth - 1)) \<le> MaxFloat64"
    and inv: "- MaxFloat64 \<le> alpha" "alpha \<le> h" "h \<le> MaxFloat64"
  shows "maxLoop_ab sab E p depth ms bm h alpha MaxFloat64 = maxLoop_mm smm E p depth ms bm h"
  using child bound inv
proof (induction ms arbitrary: bm h alpha)
  case Nil
  show ?case by simp
next
  case (Cons m ms)
  let ?q = "PositionMove E p m"
  let ?v = "snd (smm ?q (depth - 1))"
  let ?r = "snd (sab ?q (depth - 1) alpha MaxFloat64)"
  from Cons.prems(1) have
    child': "\<forall>m \<in> set ms. \<forall>a. - MaxFloat64 \<le> a \<and> a \<le> MaxFloat64 \<longrightarrow>
                  agrees (snd (smm (PositionMove E p m) (depth - 1)))
                         (snd (sab (PositionMove E p m) (depth - 1) a MaxFloat64)) a MaxFloat64"
    by simp
  from Cons.prems(2) have vM: "?v \<le> MaxFloat64"
    and bound': "\<forall>m \<in> set ms. snd (smm (PositionMove E p m) (depth - 1)) \<le> MaxFloat64"
    by simp_all
  note inv = Cons.prems(3-5)
  from inv have aM: "- MaxFloat64 \<le> alpha \<and> alpha \<le> MaxFloat64" by linarith
  with Cons.prems(1) have ag: "agrees ?v ?r alpha MaxFloat64" by simp
  from ag vM inv have same: "max h ?r = max h ?v" and upd: "(?r > h) = (?v > h)"
    unfolding agrees_def by linarith+
  from vM inv have nb: "\<not> max h ?v > MaxFloat64" by linarith
  have z: "(0::real) \<le> MaxFloat64" using MaxFloat64_pos by simp
  show ?case
  proof (cases "IsCheckMate E ?q")
    case True
    then show ?thesis by (simp only: maxLoop_mm_Cons maxLoop_ab_Cons if_True)
  next
    case nc: False
    show ?thesis
    proof (cases "IsStaleMate E ?q \<and> h < 0")
      case True
      with inv have "alpha \<le> 0" by linarith
      from Cons.IH [OF child' bound' inv(1) this z, of m] nc True
      show ?thesis by (simp only: maxLoop_mm_Cons maxLoop_ab_Cons if_True if_False simp_thms)
    next
      case False
      from inv have 1: "- MaxFloat64 \<le> max alpha (max h ?v)" by linarith
      from inv have 2: "max alpha (max h ?v) \<le> max h ?v" by linarith
      from vM inv have 3: "max h ?v \<le> MaxFloat64" by linarith
      from Cons.IH [OF child' bound' 1 2 3, of "if ?v > h then m else bm"] nc False nb
      show ?thesis
        unfolding maxLoop_mm_Cons maxLoop_ab_Cons same upd by (simp only: if_False)
    qed
  qed
qed

lemma minLoop_exact:
  assumes child: "\<forall>m \<in> set ms. \<forall>b. - MaxFloat64 \<le> b \<and> b \<le> MaxFloat64 \<longrightarrow>
                  agrees (snd (smm (PositionMove E p m) (depth - 1)))
                         (snd (sab (PositionMove E p m) (depth - 1) (- MaxFloat64) b))
                         (- MaxFloat64) b"
    and bound: "\<forall>m \<in> set ms. - MaxFloat64 \<le> snd (smm (PositionMove E p m) (depth - 1))"
    and inv: "beta \<le> MaxFloat64" "l \<le> beta" "- MaxFloat64 \<le> l"
  shows "minLoop_ab sab E p depth ms bm l (- MaxFloat64) beta = minLoop_mm smm E p depth ms bm l"
  using child bound inv
proof (induction ms arbitrary: bm l beta)
  case Nil
  show ?case by simp
next
  case (Cons m ms)
  let ?q = "PositionMove E p m"
  let ?v = "snd (smm ?q (depth - 1))"
  let ?r = "snd (sab ?q (depth - 1) (- MaxFloat64) beta)"
  from Cons.prems(1) have
    child': "\<forall>m \<in> set ms. \<forall>b. - MaxFloat64 \<le> b \<and> b \<le> MaxFloat64 \<longrightarrow>
                  agrees (snd (smm (PositionMove E p m) (depth - 1)))
                         (snd (sab (PositionMove E p m) (depth - 1) (- MaxFloat64) b))
                         (- MaxFloat64) b"
    by simp
  from Cons.prems(2) have vM: "- MaxFloat64 \<le> ?v"
    and bound': "\<forall>m \<in> set ms. - MaxFloat64 \<le> snd (smm (PositionMove E p m) (depth - 1))"
    by simp_all
  note inv = Cons.prems(3-5)
  from inv have bM: "- MaxFloat64 \<le> beta \<and> beta \<le> MaxFloat64" by linarith
  with Cons.prems(1) have ag: "agrees ?v ?r (- MaxFloat64) beta" by simp
  from ag vM inv have same: "min l ?r = min l ?v" and upd: "(?r < l) = (?v < l)"
    unfolding agrees_def by linarith+
  from vM inv have nb: "\<not> min l ?v < - MaxFloat64" by linarith
  have z: "- MaxFloat64 \<le> (0::real)" using MaxFloat64_pos by simp
  show ?case
  proof (cases "IsCheckMate E ?q")
    case True
    then show ?thesis by (simp only: minLoop_mm_Cons minLoop_ab_Cons if_True)
  next
    case nc: False
    show ?thesis
    proof (cases "IsStaleMate E ?q \<and> l > 0")
      case True
      with inv have "0 \<le> beta" by linarith
      from Cons.IH [OF child' bound' inv(1) this z, of m] nc True
      show ?thesis by (simp only: minLoop_mm_Cons minLoop_ab_Cons if_True if_False simp_thms)
    next
      case False
      from inv have 1: "min beta (min l ?v) \<le> MaxFloat64" by linarith
      from inv have 2: "min l ?v \<le> min beta (min l ?v)" by linarith
      from vM inv have 3: "- MaxFloat64 \<le> min l ?v" by linarith
      from Cons.IH [OF child' bound' 1 2 3, of "if ?v < l then m else bm"] nc False nb
      show ?thesis
        unfolding minLoop_mm_Cons minLoop_ab_Cons same upd by (simp only: if_False)
    qed
  qed
qed

lemma treeEngine_simps:
  "GenerateLegalMoves treeEngine (treeNode k) = map moveTo (treeKids k)"
  "IsCheckMate treeEngine p = False"
  "IsStaleMate treeEngine (treeNode k) = (k = 10)"
  "PositionMove treeEngine p (moveTo k) = treeNode k"
  "Turn (treeNode k) = treeTurn k"
  by (simp_all add: treeEngine_def treeNode_def moveTo_def)

lemma tree_evaluate: "fst (evaluate treeEngine (treeNode k)) = sumMaterial (treeNode k)"
  by (simp add: evaluate_def numPseudoLegalChecks_def treeEngine_def Let_def)

lemma tree_material:
  "sumMaterial (treeNode 4) = 2" "sumMaterial (treeNode 8) = 1" "sumMaterial (treeNode 9) = - 5"
  "sumMaterial (treeNode 3) = 3" "sumMaterial (treeNode 7) = - 1" "sumMaterial (treeNode 10) = 5"
  by (simp_all add: sumMaterial_def treeNode_def treeBoard_def getPieceValue_def)

lemma tree_ab: "search_ab treeEngine (treeNode 0) 3 (- MaxFloat64) MaxFloat64 = (moveTo 5, MaxFloat64)"
  by (simp add: search_ab.simps max_ab_def min_ab_def treeEngine_simps treeKids_def treeTurn_def
        tree_evaluate tree_material Let_def MaxFloat64_def)

lemma tree_mm: "search_mm treeEngine (treeNode 0) 3 = (moveTo 1, 2)"
  by (simp add: search_mm.simps max_mm_def min_mm_def treeEngine_simps treeKids_def treeTurn_def
        tree_evaluate tree_material Let_def MaxFloat64_def)


lemma tree_evaluate_mmB: "evaluate_mmB treeEngine (treeNode k) = Some (sumMaterial (treeNode k))"
  by (simp add: evaluate_mmB_def calcAttacks_def treeEngine_def)

lemma tree_mmB: "search_mmB treeEngine (treeNode 0) 3 = Some (moveTo 1, 2)"
  by (simp add: search_mmB.simps max_mmB_def min_mmB_def treeEngine_simps treeKids_def
        treeTurn_def tree_evaluate_mmB tree_material Let_def MaxFloat64_def)

lemma tree_depth2:
  "noDeepStalemate treeEngine (treeNode 0) 2" "finiteScores treeEngine (treeNode 0) 2"
  by (simp_all add: noDeepStalemate_def treeEngine_simps treeKids_def tree_evaluate tree_material
        numeral_2_eq_2 MaxFloat64_def)

lemma tree_ab2: "search_ab treeEngine (treeNode 0) 2 (- MaxFloat64) MaxFloat64 = (moveTo 5, 5)"
  by (simp add: search_ab.simps max_ab_def min_ab_def treeEngine_simps treeKids_def treeTurn_def
        tree_evaluate tree_material Let_def MaxFloat64_def)

lemma checkEngine_simps:
  "GenerateLegalMoves checkEngine checkRoot = [moveTo 1]"
  "GenerateLegalMoves checkEngine checkChild = []"
  "PositionMove checkEngine p m = checkChild"
  "Turn checkRoot = White"
  "Turn checkChild = Black"
  "AllSquares checkEngine = [kingSquare]"
  by (simp_all add: checkEngine_def checkRoot_def checkChild_def)

lemma check_evaluate: "fst (evaluate checkEngine checkChild) = 1 / 5"
  by (simp add: evaluate_def numPseudoLegalChecks_def findKing_def checkEngine_def Let_def
        sumMaterial_def checkMove_def checkChild_def)

lemma check_simulateAttacks: "simulateAttacks checkEngine checkChild kingSquare = Some 0"
  by (subst simulateAttacks.simps) (simp add: checkEngine_simps)

lemma check_evaluate_mmB: "evaluate_mmB checkEngine checkChild = Some 0"
proof -
  have "sumMaterial checkChild = 0" by (simp add: sumMaterial_def checkChild_def)
  then show ?thesis
    by (simp add: evaluate_mmB_def calcAttacks_def checkEngine_simps check_simulateAttacks)
qed

lemma check_ab: "search_ab checkEngine checkRoot 0 (- MaxFloat64) MaxFloat64 = (moveTo 1, 1 / 5)"
proof -
  have "- MaxFloat64 < 1 / 5" "\<not> MaxFloat64 < 1 / 5" by (simp_all add: MaxFloat64_def)
  then show ?thesis
    by (simp add: search_ab.simps max_ab_def checkEngine_simps check_evaluate Let_def)
qed

lemma check_mmB: "search_mmB checkEngine checkRoot 0 = Some (moveTo 1, 0)"
proof -
  have "- MaxFloat64 < 0" using MaxFloat64_pos by simp
  then show ?thesis
    by (simp add: search_mmB.simps max_mmB_def checkEngine_simps check_evaluate_mmB Let_def)
qed

lemma lineEngine_simps:
  "GenerateLegalMoves lineEngine (lineNode k) = map moveTo (lineKids k)"
  "IsCheckMate lineEngine (lineNode k) = (k = 2)"
  "IsStaleMate lineEngine p = False"
  "PositionMove lineEngine p (moveTo k) = lineNode k"
  "Turn (lineNode k) = (if k = 1 then Black else White)"
  by (simp_all add: lineEngine_def lineNode_def moveTo_def)

lemma line_ab: "search_ab lineEngine (lineNode 0) 2 (- MaxFloat64) MaxFloat64 = (noMove, - MaxFloat64)"
  by (simp add: search_ab.simps max_ab_def min_ab_def lineEngine_simps lineKids_def Let_def)

lemma line_mm: "search_mm lineEngine (lineNode 0) 2 = (noMove, - MaxFloat64)"
  by (simp add: search_mm.simps max_mm_def min_mm_def lineEngine_simps lineKids_def Let_def)

lemma line_mmB: "search_mmB lineEngine (lineNode 0) 2 = Some (noMove, - MaxFloat64)"
  by (simp add: search_mmB.simps max_mmB_def min_mmB_def lineEngine_simps lineKids_def Let_def)

lemma moveTo_noMove: "moveTo k \<noteq> noMove"
  by (simp add: moveTo_def noMove_def NoSquare_def)

lemma maxLeafLoop_mmB_mm:
  "\<forall>m \<in> set ms. evaluate_mmB E (PositionMove E p m) = Some (fst (evaluate E (PositionMove E p m)))
   \<Longrightarrow> maxLeafLoop_mmB E p ms bm h = Some (maxLeafLoop_mm E p ms bm h)"
  by (induction ms arbitrary: bm h) (simp_all add: Let_def)

lemma minLeafLoop_mmB_mm:
  "\<forall>m \<in> set ms. evaluate_mmB E (PositionMove E p m) = Some (fst (evaluate E (PositionMove E p m)))
   \<Longrightarrow> minLeafLoop_mmB E p ms bm l = Some (minLeafLoop_mm E p ms bm l)"
  by (induction ms arbitrary: bm l) (simp_all add: Let_def)

lemma maxLoop_mmB_mm:
  "\<forall>m \<in> set ms. sB (PositionMove E p m) (depth - 1) = Some (s (PositionMove E p m) (depth - 1))
   \<Longrightarrow> maxLoop_mmB sB E p depth ms bm h = Some (maxLoop_mm s E p depth ms bm h)"
proof (induction ms arbitrary: bm h)
  case Nil
  show ?case by simp
next
  case (Cons m ms)
  obtain mv sc where s: "s (PositionMove E p m) (depth - 1) = (mv, sc)"
    by (cases "s (PositionMove E p m) (depth - 1)")
  with Cons.prems have sB: "sB (PositionMove E p m) (depth - 1) = Some (mv, sc)" by simp
  from Cons.prems have
    "\<forall>m \<in> set ms. sB (PositionMove E p m) (depth - 1) = Some (s (PositionMove E p m) (depth - 1))"
    by simp
  note ih = Cons.IH [OF this]
  show ?case
    unfolding maxLoop_mmB.simps maxLoop_mm.simps Let_def s sB
    by (simp add: ih)
qed

lemma minLoop_mmB_mm:
  "\<forall>m \<in> set ms. sB (PositionMove E p m) (depth - 1) = Some (s (PositionMove E p m) (depth - 1))
   \<Longrightarrow> minLoop_mmB sB E p depth ms bm l = Some (minLoop_mm s E p depth ms bm l)"
proof (induction ms arbitrary: bm l)
  case Nil
  show ?case by simp
next
  case (Cons m ms)
  obtain mv sc where s: "s (PositionMove E p m) (depth - 1) = (mv, sc)"
    by (cases "s (PositionMove E p m) (depth - 1)")
  with Cons.prems have sB: "sB (PositionMove E p m) (depth - 1) = Some (mv, sc)" by simp
  from Cons.prems have
    "\<forall>m \<in> set ms. sB (PositionMove E p m) (depth - 1) = Some (s (PositionMove E p m) (depth - 1))"
    by simp
  note ih = Cons.IH [OF this]
  show ?case
    unfolding minLoop_mmB.simps minLoop_mm.simps Let_def s sB
    by (simp add: ih)
qed

lemma search_mmB_mm: "sameScores E p d \<Longrightarrow> search_mmB E p d = Some (search_mm E p d)"
proof (induction d arbitrary: p)
  case 0
  then have "\<forall>m \<in> set (GenerateLegalMoves E p).
      evaluate_mmB E (PositionMove E p m) = Some (fst (evaluate E (PositionMove E p m)))"
    by simp
  from maxLeafLoop_mmB_mm [OF this] minLeafLoop_mmB_mm [OF this] show ?case
    by (subst search_mmB.simps, subst search_mm.simps)
       (simp add: max_mmB_def min_mmB_def max_mm_def min_mm_def)
next
  case (Suc d)
  then have c: "\<forall>m \<in> set (GenerateLegalMoves E p).
      search_mmB E (PositionMove E p m) (Suc d - 1) = Some (search_mm E (PositionMove E p m) (Suc d - 1))"
    by simp
  from maxLoop_mmB_mm [where sB = "search_mmB E" and s = "search_mm E", OF c]
       minLoop_mmB_mm [where sB = "search_mmB E" and s = "search_mm E", OF c]
  show ?case
    by (subst search_mmB.simps, subst search_mm.simps)
       (simp add: max_mmB_def min_mmB_def max_mm_def min_mm_def)
qed

text \<open>
  C1 as stated fails twice. On \<open>treeEngine\<close> at depth 3 alpha-beta returns the
  score \<open>MaxFloat64\<close> and both versions of minimax return 2: below position 6,
  searched with \<open>alpha = 2\<close>, position 7 is cut off with the score 1 instead of
  its minimax score -5, so the running best is not negative when the stalemating
  move to position 10 comes, that move misses the stalemate branch and is
  searched, and the search of a position without moves returns \<open>MaxFloat64\<close>.
  On \<open>checkEngine\<close> at depth 0 the two evaluators differ: alpha-beta returns 0.2
  and minmax/minmax.go returns 0.
\<close>

theorem alphabeta_minimax_counterexample:
  "snd (search_ab treeEngine (treeNode 0) 3 (- MaxFloat64) MaxFloat64) = MaxFloat64 \<and>
   search_mm treeEngine (treeNode 0) 3 = (moveTo 1, 2) \<and>
   search_mmB treeEngine (treeNode 0) 3 = Some (moveTo 1, 2) \<and>
   MaxFloat64 \<noteq> 2 \<and>
   snd (search_ab checkEngine checkRoot 0 (- MaxFloat64) MaxFloat64) = 1 / 5 \<and>
   map_option snd (search_mmB checkEngine checkRoot 0) = Some 0"
proof -
  have "MaxFloat64 \<noteq> 2" by (simp add: MaxFloat64_def)
  then show ?thesis
    by (simp add: tree_ab tree_mm tree_mmB check_ab check_mmB)
qed

text \<open>
  C1, amended. Take a position and a depth such that every evaluated score is
  finite and no stalemate position arises two or more plies below the root within
  the depth. Then the alpha-beta search with the full window returns the same
  score, and the same move, as the minimax search that uses alpha-beta's own
  evaluator (the threat-count version of package minmax); so do the two
  \<open>GetMove\<close>. The same holds for the search of minmax/minmax.go wherever its
  exchange evaluator gives the evaluated positions the scores of the threat-count
  evaluator.
\<close>

theorem alphabeta_equals_minimax:
  assumes "noDeepStalemate E p depth" and "finiteScores E p depth"
  shows "search_ab E p depth (- MaxFloat64) MaxFloat64 = search_mm E p depth \<and>
         GetMove_ab E depth p = GetMove_mm E depth p \<and>
         (sameScores E p depth \<longrightarrow>
            search_mmB E p depth = Some (search_ab E p depth (- MaxFloat64) MaxFloat64) \<and>
            GetMove_mmB E depth p = Some (GetMove_ab E depth p))"
proof -
  let ?ms = "GenerateLegalMoves E p"
  have mM: "- MaxFloat64 \<le> MaxFloat64" using MaxFloat64_pos by simp
  have eq: "search_ab E p depth (- MaxFloat64) MaxFloat64 = search_mm E p depth"
  proof (cases depth)
    case 0
    with assms(2) have
      hi: "\<forall>m \<in> set ?ms. fst (evaluate E (PositionMove E p m)) \<le> MaxFloat64"
      and lo: "\<forall>m \<in> set ?ms. - MaxFloat64 \<le> fst (evaluate E (PositionMove E p m))"
      by (auto simp: abs_le_iff)
    show ?thesis
      unfolding 0
      by (subst search_mm.simps, subst search_ab.simps)
         (simp add: max_mm_def min_mm_def max_ab_def min_ab_def
            maxLeaf_exact [OF mM hi] minLeaf_exact [OF mM lo])
  next
    case (Suc d)
    from assms(1) Suc have ns: "\<forall>m \<in> set ?ms. noStalemate E (PositionMove E p m) d"
      by (simp add: noDeepStalemate_def)
    from assms(2) Suc have fs: "\<forall>m \<in> set ?ms. finiteScores E (PositionMove E p m) d" by simp
    have hi: "\<forall>m \<in> set ?ms. snd (search_mm E (PositionMove E p m) (Suc d - 1)) \<le> MaxFloat64"
      and lo: "\<forall>m \<in> set ?ms. - MaxFloat64 \<le> snd (search_mm E (PositionMove E p m) (Suc d - 1))"
      using fs search_mm_bounds [of E _ d] by auto
    have cmax: "\<forall>m \<in> set ?ms. \<forall>a. - MaxFloat64 \<le> a \<and> a \<le> MaxFloat64 \<longrightarrow>
                  agrees (snd (search_mm E (PositionMove E p m) (Suc d - 1)))
                         (snd (search_ab E (PositionMove E p m) (Suc d - 1) a MaxFloat64))
                         a MaxFloat64"
      using ns fs search_agrees [of E _ d] by simp
    have cmin: "\<forall>m \<in> set ?ms. \<forall>b. - MaxFloat64 \<le> b \<and> b \<le> MaxFloat64 \<longrightarrow>
                  agrees (snd (search_mm E (PositionMove E p m) (Suc d - 1)))
                         (snd (search_ab E (PositionMove E p m) (Suc d - 1) (- MaxFloat64) b))
                         (- MaxFloat64) b"
      using ns fs search_agrees [of E _ d] by simp
    have le: "- MaxFloat64 \<le> - MaxFloat64" "MaxFloat64 \<le> MaxFloat64" by simp_all
    note mx = maxLoop_exact [where smm = "search_mm E" and sab = "search_ab E"
        and depth = "Suc d", OF cmax hi le(1) le(1) mM, of noMove]
    note mn = minLoop_exact [where smm = "search_mm E" and sab = "search_ab E"
        and depth = "Suc d", OF cmin lo le(2) le(2) mM, of noMove]
    show ?thesis
      unfolding Suc
      by (subst search_mm.simps, subst search_ab.simps)
         (simp add: max_mm_def min_mm_def max_ab_def min_ab_def mx mn)
  qed
  then show ?thesis
    by (simp add: GetMove_ab_def GetMove_mm_def GetMove_mmB_def search_mmB_mm)
qed

theorem alphabeta_equals_minimax_witness:
  "search_mm treeEngine (treeNode 0) 2 = (moveTo 5, 5) \<and>
   search_mmB treeEngine (treeNode 0) 2 = Some (moveTo 5, 5) \<and>
   GetMove_mm treeEngine 2 (treeNode 0) = moveTo 5 \<and>
   GetMove_mmB treeEngine 2 (treeNode 0) = Some (moveTo 5)"
proof -
  have s: "sameScores treeEngine (treeNode 0) 2"
    by (simp add: treeEngine_simps treeKids_def tree_evaluate tree_evaluate_mmB numeral_2_eq_2)
  have g: "GetMove_ab treeEngine 2 (treeNode 0) = moveTo 5"
    by (simp add: GetMove_ab_def tree_ab2)
  note t = alphabeta_equals_minimax [OF tree_depth2]
  from t have 1: "search_mm treeEngine (treeNode 0) 2 = (moveTo 5, 5)"
    unfolding tree_ab2 by simp
  from t g have 2: "GetMove_mm treeEngine 2 (treeNode 0) = moveTo 5" by simp
  from t s have 3: "search_mmB treeEngine (treeNode 0) 2 = Some (moveTo 5, 5)"
    unfolding tree_ab2 by blast
  from t s g have 4: "GetMove_mmB treeEngine 2 (treeNode 0) = Some (moveTo 5)" by simp
  from 1 2 3 4 show ?thesis by blast
qed

subsection \<open>A single legal move\<close>

text \<open>
  C2 at a position whose single legal move allows mate in one: at depth 2 the
  reply \<^verbatim>\<open>min\<close> returns the score \<open>- MaxFloat64\<close>, which is not greater than
  the initial \<open>highestScore\<close>, so \<^verbatim>\<open>max\<close> never records the move and all three
  searchers return the null move \<^verbatim>\<open>chess.Move{}\<close>.
\<close>

theorem forced_mate_returns_null_move:
  "GenerateLegalMoves lineEngine (lineNode 0) = [moveTo 1] \<and>
   moveTo 1 \<noteq> noMove \<and>
   GetMove_ab lineEngine 2 (lineNode 0) = noMove \<and>
   GetMove_mm lineEngine 2 (lineNode 0) = noMove \<and>
   GetMove_mmB lineEngine 2 (lineNode 0) = Some noMove"
  by (simp add: GetMove_ab_def GetMove_mm_def GetMove_mmB_def line_ab line_mm line_mmB
        moveTo_noMove lineEngine_simps lineKids_def)

end
